theory Spec2Isabelle
  imports Main "HOL-Library.Word" "HOL-Library.Sublist"
begin

section \<open>JavaScript string primitives used by the agent\<close>

text \<open>
  A JavaScript string is modelled as a \<open>string\<close>: the list of its code units. The four
  library methods the agent calls on strings (\<open>indexOf\<close>, \<open>substring\<close>, \<open>split\<close> with a
  limit and \<open>join\<close>) are written out with the behaviour ECMAScript gives them, including
  the not-found result \<open>-1\<close> of \<open>indexOf\<close> and the clamping of \<open>substring\<close>.
\<close>

text \<open>Offset of the leftmost match of \<open>pat\<close> in \<open>s\<close>, if there is one.\<close>

fun index_in :: "'a list \<Rightarrow> 'a list \<Rightarrow> nat option" where
  "index_in pat [] = (if pat = [] then Some 0 else None)"
| "index_in pat (c # cs) =
     (if take (length pat) (c # cs) = pat then Some 0
      else map_option Suc (index_in pat cs))"

text \<open>Clamping of a position argument to \<open>0 .. length s\<close>.\<close>

definition clamp_pos :: "'a list \<Rightarrow> int \<Rightarrow> nat" where
  "clamp_pos s i = (if i < 0 then 0 else min (nat i) (length s))"

text \<open>\<open>s.indexOf(pat, from)\<close>: the least match offset at or after \<open>from\<close>, or \<open>-1\<close>.\<close>

definition indexOf :: "'a list \<Rightarrow> 'a list \<Rightarrow> int \<Rightarrow> int" where
  "indexOf s pat from =
     (let k = clamp_pos s from
      in case index_in pat (drop k s) of
           None \<Rightarrow> - 1
         | Some i \<Rightarrow> int (k + i))"

text \<open>\<open>s.substring(a, b)\<close>: both ends clamped, swapped when \<open>a > b\<close>.\<close>

definition substring :: "'a list \<Rightarrow> int \<Rightarrow> int \<Rightarrow> 'a list" where
  "substring s a b =
     (let a' = clamp_pos s a; b' = clamp_pos s b;
          lo = min a' b'; hi = max a' b'
      in take (hi - lo) (drop lo s))"

text \<open>\<open>s.substring(a)\<close>: the end defaults to the length of the string.\<close>

definition substring_from :: "'a list \<Rightarrow> int \<Rightarrow> 'a list" where
  "substring_from s a = substring s a (int (length s))"

text \<open>
  \<open>s.split(sep)\<close> for a non-empty separator: the scan of ECMAScript's \<open>String.prototype.split\<close>.
  \<open>cur\<close> is the piece collected since the last match; at a match the piece is emitted and
  the scan resumes after the separator, otherwise it advances by one code unit. An empty
  separator splits into single code units.
\<close>

function split_scan :: "'a list \<Rightarrow> 'a list \<Rightarrow> 'a list \<Rightarrow> 'a list list" where
  "split_scan sep cur [] = [cur]"
| "split_scan sep cur (c # cs) =
     (if sep \<noteq> [] \<and> take (length sep) (c # cs) = sep
      then cur # split_scan sep [] (drop (length sep) (c # cs))
      else split_scan sep (cur @ [c]) cs)"
  by pat_completeness auto
termination
  by (relation "measure (\<lambda>(sep, cur, s). length s)") auto

definition split_all :: "'a list \<Rightarrow> 'a list \<Rightarrow> 'a list list" where
  "split_all s sep = (if sep = [] then map (\<lambda>c. [c]) s else split_scan sep [] s)"

text \<open>\<open>s.split(sep, lim)\<close>: the first \<open>lim\<close> pieces of the split.\<close>

definition split_limit :: "'a list \<Rightarrow> 'a list \<Rightarrow> nat \<Rightarrow> 'a list list" where
  "split_limit s sep lim = take lim (split_all s sep)"

text \<open>\<open>pieces.join(sep)\<close>.\<close>

fun join :: "'a list list \<Rightarrow> 'a list \<Rightarrow> 'a list" where
  "join [] sep = []"
| "join [p] sep = p"
| "join (p # q # ps) sep = p @ sep @ join (q # ps) sep"

section \<open>Digest extraction and template splicing\<close>

text \<open>
  The digest handlers cut the agenda text and splice the rendered fragment into the mail
  template with the same statements in both digest variants:
  \<^verbatim>\<open>
  const thirdHeaderPos = mdText.split("##", 3).join("##").length;
  const cutText = mdText.substring(0, thirdHeaderPos);
  ...
  const hr1 = email.indexOf("<hr>") + 4
  const hr2 = email.indexOf("<hr>", hr1)
  email = email.substring(0, hr1) + html + email.substring(hr2)
  \<close>
\<close>

definition thirdHeaderPos :: "string \<Rightarrow> nat" where
  "thirdHeaderPos mdText = length (join (split_limit mdText ''##'' 3) ''##'')"

definition cutText :: "string \<Rightarrow> string" where
  "cutText mdText = substring mdText 0 (int (thirdHeaderPos mdText))"

definition hr1 :: "string \<Rightarrow> int" where
  "hr1 email = indexOf email ''<hr>'' 0 + 4"

definition hr2 :: "string \<Rightarrow> int" where
  "hr2 email = indexOf email ''<hr>'' (hr1 email)"

definition splice :: "string \<Rightarrow> string \<Rightarrow> string" where
  "splice email html =
     substring email 0 (hr1 email) @ html @ substring_from email (hr2 email)"

subsection \<open>Occurrences of a marker\<close>

text \<open>
  The offsets at which a marker occurs in a text, read left to right, each occurrence
  starting at or after the end of the one before it (the occurrences a search-and-resume
  reader counts). This is the notion of ``the n-th occurrence'' the properties of the digest
  cut and of the template splice are stated with; it is not used by the program.
\<close>

function occ_scan :: "'a list \<Rightarrow> nat \<Rightarrow> 'a list \<Rightarrow> nat list" where
  "occ_scan pat k [] = []"
| "occ_scan pat k (c # cs) =
     (if pat \<noteq> [] \<and> take (length pat) (c # cs) = pat
      then k # occ_scan pat (k + length pat) (drop (length pat) (c # cs))
      else occ_scan pat (Suc k) cs)"
  by pat_completeness auto
termination
  by (relation "measure (\<lambda>(pat, k, s). length s)") auto

definition occurrences :: "'a list \<Rightarrow> 'a list \<Rightarrow> nat list" where
  "occurrences s pat = occ_scan pat 0 s"

text \<open>The marker stands at offset \<open>i\<close> of the text.\<close>

definition matches_at :: "'a list \<Rightarrow> 'a list \<Rightarrow> nat \<Rightarrow> bool" where
  "matches_at s pat i = (i + length pat \<le> length s \<and> take (length pat) (drop i s) = pat)"

section \<open>Values, events and state of the agent process\<close>

text \<open>
  An exception value: the handlers throw \<open>new Error(msg)\<close> themselves, and the engine
  throws a \<open>TypeError\<close> on a property access on \<open>null\<close> or \<open>undefined\<close>. \<open>err.message\<close>
  reads the text.
\<close>

datatype js_error = Error string | TypeError string

fun error_message :: "js_error \<Rightarrow> string" where
  "error_message (Error m) = m"
| "error_message (TypeError m) = m"

type_synonym byte = "8 word"

text \<open>The stored workspace metadata; only its \<open>ignore\<close> field is touched by the agent.\<close>

record metadata =
  ignore :: bool

text \<open>A project of the document tree: its name and its files (path and live text).\<close>

record project =
  pname :: string
  files :: "(string \<times> string) list"

text \<open>What \<open>Workspace.setup\<close> hands back: the chat channels and the projects.\<close>

record workspace =
  channels :: "string list"
  projects :: "project list"

record chat_message =
  uuid :: string
  user :: string
  ts :: int
  message :: string

text \<open>The body of \<open>POST /agent\<close>.\<close>

record request =
  wkspName :: string
  psk :: string
  channel :: string

text \<open>The two JSON bodies: \<open>{ok: true, message}\<close> and \<open>{ok: false, error}\<close>.\<close>

datatype body = OkBody string | ErrBody string

text \<open>
  The four listeners the variants register on \<open>chat.events\<close>: the command-line tool prints
  only, the server of \<open>headless.ts\<close> replies through the text generator, the first digest
  server mails the digest and reports to the channel, the second one only mails the digest.
\<close>

datatype mode = PrintOnly | AiReply | DigestReport | DigestOnly

record listener =
  l_mode :: mode
  l_wkspName :: string
  l_wksp :: workspace
  l_channel :: string

text \<open>The value of the slot \<open>globalThis._activeAgent\<close>, read for its \<open>wkspName\<close>.\<close>

record agent =
  a_wkspName :: string

text \<open>The calls the process makes to its collaborators, in the order it makes them.\<close>

datatype event =
    ConnectTestbed
  | NdncertEmail string
  | Join string string bool bool "byte list"
  | StatsPut string metadata
  | WorkspaceSetup string
  | Subscribe listener
  | LogStopping string
  | Generate string
  | SendMessage string chat_message
  | SendMail string
  | WriteEnv string "byte list" string
  | Respond nat body

text \<open>
  How an asynchronous function ends: it returns, it throws (its promise rejects), the
  process exits (\<open>process.exit\<close>), or it never settles (\<open>await new Promise(() => {})\<close>).
\<close>

datatype 'a outcome = Returned 'a | Threw js_error | Exited int | Pending

text \<open>
  The mutable state of the process: the slot \<open>globalThis._activeAgent\<close>, the metadata
  store \<open>globalThis._o.stats\<close>, the listeners registered on chat events, and the outcomes
  of the promises nobody awaits.
\<close>

record state =
  activeAgent :: "agent option"
  stats :: "string \<rightharpoonup> metadata"
  listeners :: "listener list"
  detached :: "unit outcome list"

text \<open>
  The collaborators outside the repository, as parameters: the sync service
  (\<open>Workspace.join\<close>, which may update the metadata store, and \<open>Workspace.setup\<close>),
  \<open>utils.escapeUrlName\<close>, the identity service, the clock, the text generator, the
  markdown renderer, the template file, the mail transport and the write of \<open>wksp.env\<close>.
\<close>

record env =
  Workspace_join ::
    "string \<Rightarrow> string \<Rightarrow> bool \<Rightarrow> bool \<Rightarrow> byte list \<Rightarrow> (string \<rightharpoonup> metadata)
       \<Rightarrow> js_error + (string \<rightharpoonup> metadata)"
  Workspace_setup :: "string \<Rightarrow> js_error + workspace"
  escapeUrlName :: "string \<Rightarrow> string"
  has_testbed_key :: bool
  get_identity_name :: string
  now :: int
  ai_generate :: "string \<Rightarrow> js_error + string"
  markdown :: "string \<Rightarrow> string"
  read_template :: "js_error + string"
  send_mail :: "string \<Rightarrow> js_error + string"
  write_env :: "js_error option"

subsection \<open>Sequencing\<close>

type_synonym 'a act = "state \<Rightarrow> 'a outcome \<times> event list \<times> state"

definition ret :: "'a \<Rightarrow> 'a act" where
  "ret x = (\<lambda>s. (Returned x, [], s))"

definition throw :: "js_error \<Rightarrow> 'a act" where
  "throw e = (\<lambda>s. (Threw e, [], s))"

definition exit_process :: "int \<Rightarrow> 'a act" where
  "exit_process n = (\<lambda>s. (Exited n, [], s))"

definition pending :: "'a act" where
  "pending = (\<lambda>s. (Pending, [], s))"

definition emit :: "event \<Rightarrow> unit act" where
  "emit e = (\<lambda>s. (Returned (), [e], s))"

text \<open>\<open>const x = await m; f(x)\<close>: whatever is not a return ends the caller the same way.\<close>

definition andThen :: "'a act \<Rightarrow> ('a \<Rightarrow> 'b act) \<Rightarrow> 'b act" where
  "andThen m f = (\<lambda>s.
     case m s of
       (Returned x, ev, s') \<Rightarrow> (case f x s' of (r, ev', s'') \<Rightarrow> (r, ev @ ev', s''))
     | (Threw e, ev, s') \<Rightarrow> (Threw e, ev, s')
     | (Exited n, ev, s') \<Rightarrow> (Exited n, ev, s')
     | (Pending, ev, s') \<Rightarrow> (Pending, ev, s'))"

text \<open>\<open>try { m } catch (err) { h(err) }\<close>.\<close>

definition catch :: "'a act \<Rightarrow> (js_error \<Rightarrow> 'a act) \<Rightarrow> 'a act" where
  "catch m h = (\<lambda>s.
     case m s of
       (Threw e, ev, s') \<Rightarrow> (case h e s' of (r, ev', s'') \<Rightarrow> (r, ev @ ev', s''))
     | (r, ev, s') \<Rightarrow> (r, ev, s'))"

text \<open>
  A call of an asynchronous function whose promise is dropped: the caller goes on at
  once. When the promise rejects, nobody catches the rejection; the sources install no
  handler for unhandled rejections, so the runtime ends the process with exit code 1.
  A promise that returns or never settles leaves the caller undisturbed, and
  \<open>process.exit\<close> inside the call ends the process as everywhere.
\<close>

definition detach :: "unit act \<Rightarrow> unit act" where
  "detach m = (\<lambda>s.
     case m s of
       (Exited n, ev, s') \<Rightarrow> (Exited n, ev, s')
     | (Threw e, ev, s') \<Rightarrow> (Exited 1, ev, s'\<lparr>detached := detached s' @ [Threw e]\<rparr>)
     | (r, ev, s') \<Rightarrow> (Returned (), ev, s'\<lparr>detached := detached s' @ [r]\<rparr>))"

section \<open>PSK validation\<close>

text \<open>
  \<open>Buffer.from(str, 'hex')\<close> decodes pairs of hexadecimal digits and stops at the first
  pair that is not one; a trailing single character is dropped.
\<close>

definition unhex :: "char \<Rightarrow> nat option" where
  "unhex c =
     (let n = (of_char c :: nat)
      in if 48 \<le> n \<and> n \<le> 57 then Some (n - 48)
         else if 97 \<le> n \<and> n \<le> 102 then Some (n - 87)
         else if 65 \<le> n \<and> n \<le> 70 then Some (n - 55)
         else None)"

fun hex_decode :: "string \<Rightarrow> byte list" where
  "hex_decode (a # b # rest) =
     (case (unhex a, unhex b) of
        (Some x, Some y) \<Rightarrow> of_nat (16 * x + y) # hex_decode rest
      | _ \<Rightarrow> [])"
| "hex_decode _ = []"

text \<open>
  The check every entry point makes on the PSK it is given:
  \<^verbatim>\<open>
  const pskBuffer = Buffer.from(psk, 'hex');
  if (pskBuffer.length !== 32) {
    throw new Error('PSK must be exactly 32 bytes (64 hex characters)');
  }
  psk = new Uint8Array(pskBuffer);
  \<close>
\<close>

definition validate_psk :: "string \<Rightarrow> byte list act" where
  "validate_psk pskHex =
     (let pskBuffer = hex_decode pskHex
      in if length pskBuffer \<noteq> 32
         then throw (Error ''PSK must be exactly 32 bytes (64 hex characters)'')
         else ret pskBuffer)"

section \<open>Workspace setup\<close>

definition stats_get :: "string \<Rightarrow> metadata option act" where
  "stats_get name = (\<lambda>s. (Returned (stats s name), [], s))"

definition stats_put :: "string \<Rightarrow> metadata \<Rightarrow> unit act" where
  "stats_put name m = (\<lambda>s. (Returned (), [StatsPut name m], s\<lparr>stats := (stats s)(name \<mapsto> m)\<rparr>))"

definition join_call ::
  "env \<Rightarrow> string \<Rightarrow> string \<Rightarrow> bool \<Rightarrow> bool \<Rightarrow> byte list \<Rightarrow> unit act" where
  "join_call e name label trusted relaxed key = (\<lambda>s.
     case Workspace_join e name label trusted relaxed key (stats s) of
       Inl err \<Rightarrow> (Threw err, [Join name label trusted relaxed key], s)
     | Inr st \<Rightarrow> (Returned (), [Join name label trusted relaxed key], s\<lparr>stats := st\<rparr>))"

definition setup_call :: "env \<Rightarrow> string \<Rightarrow> workspace act" where
  "setup_call e name = (\<lambda>s.
     case Workspace_setup e name of
       Inl err \<Rightarrow> (Threw err, [WorkspaceSetup name], s)
     | Inr w \<Rightarrow> (Returned w, [WorkspaceSetup name], s))"

text \<open>
  \<open>setupWorkspace\<close> of \<open>headless.ts\<close> and of the command-line tool:
  \<^verbatim>\<open>
  const wkspMeta = await globalThis._o.stats.get(wkspName);
  if (!wkspMeta) {
    await Workspace.join(wkspName, wkspName, false, false, psk);
  }
  return await Workspace.setup(utils.escapeUrlName(wkspName));
  \<close>
\<close>

definition setupWorkspace :: "env \<Rightarrow> string \<Rightarrow> byte list \<Rightarrow> workspace act" where
  "setupWorkspace e name key =
     andThen (stats_get name) (\<lambda>wkspMeta.
     andThen (if wkspMeta = None then join_call e name name False False key else ret ()) (\<lambda>_.
     setup_call e (escapeUrlName e name)))"

text \<open>
  \<open>setupWorkspace\<close> of the two digest servers: the join relaxes certificate validation,
  and the metadata read \<^emph>\<open>before\<close> the join is then updated and stored:
  \<^verbatim>\<open>
  const wkspMeta = await globalThis._o.stats.get(wkspName);
  if (!wkspMeta) {
    await Workspace.join(wkspName, wkspName, false, true, psk);
  }
  wkspMeta.ignore = true;
  await globalThis._o.stats.put(wkspName, wkspMeta);
  return await Workspace.setup(utils.escapeUrlName(wkspName));
  \<close>
  Assigning a property of \<open>null\<close> or \<open>undefined\<close> throws a \<open>TypeError\<close>.
\<close>

definition set_ignore :: "metadata option \<Rightarrow> metadata act" where
  "set_ignore wkspMeta =
     (case wkspMeta of
        None \<Rightarrow> throw (TypeError ''Cannot set properties of undefined (setting ignore)'')
      | Some m \<Rightarrow> ret (m\<lparr>ignore := True\<rparr>))"

definition setupWorkspace_digest :: "env \<Rightarrow> string \<Rightarrow> byte list \<Rightarrow> workspace act" where
  "setupWorkspace_digest e name key =
     andThen (stats_get name) (\<lambda>wkspMeta.
     andThen (if wkspMeta = None then join_call e name name False True key else ret ()) (\<lambda>_.
     andThen (set_ignore wkspMeta) (\<lambda>m.
     andThen (stats_put name m) (\<lambda>_.
     setup_call e (escapeUrlName e name)))))"

section \<open>The chat listeners\<close>

definition AGENT_ID :: string where
  "AGENT_ID = ''AGENT: ''"

definition nl :: string where
  "nl = [CHR 0x0A]"

definition generate_call :: "env \<Rightarrow> string \<Rightarrow> string act" where
  "generate_call e prompt = (\<lambda>s.
     case ai_generate e prompt of
       Inl err \<Rightarrow> (Threw err, [Generate prompt], s)
     | Inr text \<Rightarrow> (Returned text, [Generate prompt], s))"

text \<open>
  \<open>chat.sendMessage(channelName, {uuid: '', user: await ndn.api.get_identity_name(),
  ts: Date.now(), message: text})\<close>.
\<close>

definition sendMessage :: "env \<Rightarrow> string \<Rightarrow> string \<Rightarrow> unit act" where
  "sendMessage e channelName text =
     emit (SendMessage channelName
       \<lparr>uuid = [], user = get_identity_name e, ts = now e, message = text\<rparr>)"

text \<open>
  The listener of \<open>headless.ts\<close>:
  \<^verbatim>\<open>
  if (msgChannelName === channelName) {
    const AGENT_ID = 'AGENT: '
    if (message.message.substring(0, 7) != AGENT_ID) {
      let { text } = await ai.generate({ ..., prompt: message.message });
      text = AGENT_ID + text;
      await chat.sendMessage(channelName, { ..., message: text });
    }
  }
  \<close>
\<close>

definition on_chat_ai :: "env \<Rightarrow> string \<Rightarrow> string \<Rightarrow> chat_message \<Rightarrow> unit act" where
  "on_chat_ai e channelName msgChannelName msg =
     (if msgChannelName = channelName then
        (if substring (message msg) 0 7 \<noteq> AGENT_ID then
           andThen (generate_call e (message msg)) (\<lambda>text.
           sendMessage e channelName (AGENT_ID @ text))
         else ret ())
      else ret ())"

text \<open>
  The search for the agenda, the same loop in both digest listeners. \<open>fileContents\<close> starts
  undefined and is overwritten at every file whose path is \<open>/agenda.md\<close>:
  \<^verbatim>\<open>
  let fileContents;
  for (let i = 0; i < wksp.proj.getProjects().length; i++) {
    const instance = await wksp.proj.get(wksp.proj.getProjects()[i].name)
    for (let j = 0; j < instance.getFileList().length; j++) {
      if (instance.getFileList()[j].path == "/agenda.md") {
        fileContents = await instance.getFile(instance.getFileList()[j].path);
      }
    }
  }
  \<close>
  \<open>wksp.proj.get\<close> is taken to resolve a listed project to itself, and \<open>getFile\<close> to give
  the text stored under the path.
\<close>

definition scan_files :: "project \<Rightarrow> string option \<Rightarrow> string option" where
  "scan_files instance fileContents =
     foldl (\<lambda>fc f. if fst f = ''/agenda.md'' then map_of (files instance) (fst f) else fc)
       fileContents (files instance)"

definition find_agenda :: "workspace \<Rightarrow> string option" where
  "find_agenda wksp = foldl (\<lambda>fc instance. scan_files instance fc) None (projects wksp)"

definition read_template_call :: "env \<Rightarrow> string act" where
  "read_template_call e = (\<lambda>s.
     case read_template e of
       Inl err \<Rightarrow> (Threw err, [], s)
     | Inr text \<Rightarrow> (Returned text, [], s))"

text \<open>
  From the text of the agenda to the body of the mail, the same statements in both digest
  listeners:
  \<^verbatim>\<open>
  const map = fileContents.getText('text');
  const mdText = map.toString()
  const thirdHeaderPos = mdText.split("##", 3).join("##").length;
  const cutText = mdText.substring(0, thirdHeaderPos);
  const html = markdown(cutText);
  let email = fs.readFileSync('./mail-template.html', 'utf-8');
  const hr1 = email.indexOf("<hr>") + 4
  const hr2 = email.indexOf("<hr>", hr1)
  email = email.substring(0, hr1) + html + email.substring(hr2)
  \<close>
  The call of \<open>getText\<close> on an undefined \<open>fileContents\<close> throws a \<open>TypeError\<close>.
\<close>

definition digest_mail :: "env \<Rightarrow> string option \<Rightarrow> string act" where
  "digest_mail e fileContents =
     (case fileContents of
        None \<Rightarrow> throw (TypeError ''Cannot read properties of undefined (reading getText)'')
      | Some mdText \<Rightarrow>
          (let html = markdown e (cutText mdText)
           in andThen (read_template_call e) (\<lambda>email. ret (splice email html))))"

text \<open>\<open>transporter.sendMail(mailOptions, callback)\<close>: the value the callback is given.\<close>

definition send_mail_call :: "env \<Rightarrow> string \<Rightarrow> (js_error + string) act" where
  "send_mail_call e html = (\<lambda>s. (Returned (send_mail e html), [SendMail html], s))"

text \<open>
  The listener of the second digest server. It has no test on the text of the message;
  once the mail is sent the process exits:
  \<^verbatim>\<open>
  if (msgChannelName === channelName) {
    ... the agenda, the cut, the splice ...
    transporter.sendMail(mailOptions, function(error, info){
      if (error) { console.log(error); }
      else { console.log('Email sent: ' + info.response); process.exit(0); }
    });
  }
  \<close>
\<close>

definition on_chat_digest ::
  "env \<Rightarrow> workspace \<Rightarrow> string \<Rightarrow> string \<Rightarrow> chat_message \<Rightarrow> unit act" where
  "on_chat_digest e wksp channelName msgChannelName msg =
     (if msgChannelName = channelName then
        andThen (digest_mail e (find_agenda wksp)) (\<lambda>email.
        andThen (send_mail_call e email) (\<lambda>res.
        case res of Inl error \<Rightarrow> ret () | Inr info \<Rightarrow> exit_process 0))
      else ret ())"

text \<open>
  The listener of the first digest server: behind the test on the sentinel it lists the
  projects and their files, mails the digest and reports all of it to the channel.
\<close>

definition report_header :: "workspace \<Rightarrow> string" where
  "report_header wksp =
     (let text = AGENT_ID @ nl @ ''Projects: '';
          text = foldl (\<lambda>t instance. t @ nl @ pname instance) text (projects wksp);
          text = text @ nl @ nl @ ''Files: '' @ nl;
          text = foldl (\<lambda>t instance.
                   foldl (\<lambda>t f. t @ '' '' @ fst f) t (files instance) @ nl)
                   text (projects wksp)
      in text @ nl @ nl @ ''agenda.md:'' @ nl)"

definition on_chat_report ::
  "env \<Rightarrow> workspace \<Rightarrow> string \<Rightarrow> string \<Rightarrow> chat_message \<Rightarrow> unit act" where
  "on_chat_report e wksp channelName msgChannelName msg =
     (if msgChannelName = channelName then
        (if substring (message msg) 0 7 \<noteq> AGENT_ID then
           andThen (digest_mail e (find_agenda wksp)) (\<lambda>email.
           andThen (send_mail_call e email) (\<lambda>_.
           sendMessage e channelName
             (report_header wksp @ ''Sending the following email: '' @ nl @ email)))
         else ret ())
      else ret ())"

section \<open>Starting an agent\<close>

definition subscribe :: "listener \<Rightarrow> unit act" where
  "subscribe l = (\<lambda>s. (Returned (), [Subscribe l], s\<lparr>listeners := listeners s @ [l]\<rparr>))"

text \<open>
  What the variants of \<open>startAgent\<close> share after the workspace is set up: without a channel
  name the channels are listed and the process exits with 0; with \<open>check\<close> a channel that
  does not exist ends the process with 1; otherwise the listener is registered.
\<close>

definition attach :: "bool \<Rightarrow> mode \<Rightarrow> string \<Rightarrow> workspace \<Rightarrow> string \<Rightarrow> unit act" where
  "attach check m name wksp channelName =
     (if channelName = [] then exit_process 0
      else if check \<and> channelName \<notin> set (channels wksp) then exit_process 1
      else subscribe \<lparr>l_mode = m, l_wkspName = name, l_wksp = wksp, l_channel = channelName\<rparr>)"

text \<open>\<open>startAgent\<close> of \<open>headless.ts\<close>; it ends in \<open>await new Promise(() => {})\<close>.\<close>

definition startAgent :: "env \<Rightarrow> string \<Rightarrow> byte list \<Rightarrow> string \<Rightarrow> unit act" where
  "startAgent e name key channelName =
     andThen (setupWorkspace e name key) (\<lambda>wksp.
     andThen (attach True AiReply name wksp channelName) (\<lambda>_.
     pending))"

text \<open>\<open>startAgent\<close> of the first digest server.\<close>

definition startAgent_report :: "env \<Rightarrow> string \<Rightarrow> byte list \<Rightarrow> string \<Rightarrow> unit act" where
  "startAgent_report e name key channelName =
     andThen (setupWorkspace_digest e name key) (\<lambda>wksp.
     andThen (attach True DigestReport name wksp channelName) (\<lambda>_.
     pending))"

text \<open>
  \<open>startAgent\<close> of the second digest server: the test that the channel exists is commented
  out, and after registering the listener the agent posts the message \<open>input\<close> itself.
\<close>

definition startAgent_digest :: "env \<Rightarrow> string \<Rightarrow> byte list \<Rightarrow> string \<Rightarrow> unit act" where
  "startAgent_digest e name key channelName =
     andThen (setupWorkspace_digest e name key) (\<lambda>wksp.
     andThen (attach False DigestOnly name wksp channelName) (\<lambda>_.
     andThen (sendMessage e channelName ''input'') (\<lambda>_.
     pending)))"

section \<open>The control endpoint\<close>

text \<open>
  \<^verbatim>\<open>
  if (globalThis._activeAgent) {
    console.log('Stopping previous agent for workspace', globalThis._activeAgent.wkspName);
    // TODO: add cleanup if needed (detach listeners, etc.)
    globalThis._activeAgent = null;
  }
  \<close>
\<close>

definition stop_previous :: "unit act" where
  "stop_previous = (\<lambda>s.
     case activeAgent s of
       Some a \<Rightarrow> (Returned (), [LogStopping (a_wkspName a)], s\<lparr>activeAgent := None\<rparr>)
     | None \<Rightarrow> (Returned (), [], s))"

definition joined_message :: "request \<Rightarrow> string" where
  "joined_message req = ''Agent joined workspace '' @ wkspName req @ '' on #'' @ channel req"

definition respond_ok :: "request \<Rightarrow> unit act" where
  "respond_ok req = emit (Respond 200 (OkBody (joined_message req)))"

definition respond_error :: "js_error \<Rightarrow> unit act" where
  "respond_error err = emit (Respond 500 (ErrBody (error_message err)))"

text \<open>
  \<open>POST /agent\<close> of \<open>headless.ts\<close>. The PSK is checked before the \<open>try\<close>; inside it the
  start of the agent is awaited:
  \<^verbatim>\<open>
  try {
    if (globalThis._activeAgent) { ... }
    await startAgent(wkspName, psk, channel);
    res.json({ ok: true, message: `Agent joined workspace ${wkspName} on #${channel}` });
  } catch (err: any) {
    res.status(500).json({ ok: false, error: err.message });
  }
  \<close>
\<close>

definition post_agent :: "env \<Rightarrow> request \<Rightarrow> unit act" where
  "post_agent e req =
     andThen (validate_psk (psk req)) (\<lambda>key.
     catch
       (andThen stop_previous (\<lambda>_.
        andThen (startAgent e (wkspName req) key (channel req)) (\<lambda>_.
        respond_ok req)))
       respond_error)"

text \<open>
  \<open>POST /agent\<close> of the first digest server: \<open>startAgent(wkspName, psk, channel)\<close> is called
  without \<open>await\<close>. The call gives its promise back at the first \<open>await\<close> inside it, so
  \<open>res.json\<close> runs before any awaited step of the start completes, and the events of the
  start follow the response.
\<close>

definition post_agent_report :: "env \<Rightarrow> request \<Rightarrow> unit act" where
  "post_agent_report e req =
     andThen (validate_psk (psk req)) (\<lambda>key.
     catch
       (andThen stop_previous (\<lambda>_.
        andThen (respond_ok req) (\<lambda>_.
        detach (startAgent_report e (wkspName req) key (channel req)))))
       respond_error)"

text \<open>
  \<open>POST /agent\<close> of the second digest server: as the first, after
  \<open>fs.writeFileSync("./wksp.env", JSON.stringify({wkspName, psk, channel}))\<close>.
\<close>

definition write_env_call :: "env \<Rightarrow> request \<Rightarrow> byte list \<Rightarrow> unit act" where
  "write_env_call e req key = (\<lambda>s.
     case write_env e of
       Some err \<Rightarrow> (Threw err, [WriteEnv (wkspName req) key (channel req)], s)
     | None \<Rightarrow> (Returned (), [WriteEnv (wkspName req) key (channel req)], s))"

definition post_agent_digest :: "env \<Rightarrow> request \<Rightarrow> unit act" where
  "post_agent_digest e req =
     andThen (validate_psk (psk req)) (\<lambda>key.
     catch
       (andThen stop_previous (\<lambda>_.
        andThen (write_env_call e req key) (\<lambda>_.
        andThen (respond_ok req) (\<lambda>_.
        detach (startAgent_digest e (wkspName req) key (channel req))))))
       respond_error)"

text \<open>
  Requests handled one after the other. A handler that never settles does not keep the
  server from taking the next request; an exit of the process does.
\<close>

fun serve :: "(request \<Rightarrow> unit act) \<Rightarrow> request list \<Rightarrow> state \<Rightarrow> event list \<times> state" where
  "serve h [] s = ([], s)"
| "serve h (req # reqs) s =
     (case h req s of
        (Exited n, ev, s') \<Rightarrow> (ev, s')
      | (r, ev, s') \<Rightarrow> (case serve h reqs s' of (ev', s'') \<Rightarrow> (ev @ ev', s'')))"

section \<open>The command-line tool\<close>

text \<open>
  \<open>main\<close> of the command-line tool from the point where the workspace name, channel
  name, email and PSK text are known. The PSK is checked before the \<open>try\<close>; inside it the
  tool connects, obtains a certificate if it has none, sets the workspace up and
  registers a listener that prints; any error there ends the process with 1.
\<close>

definition main_cli :: "env \<Rightarrow> string \<Rightarrow> string \<Rightarrow> string \<Rightarrow> string \<Rightarrow> unit act" where
  "main_cli e name channelName email pskHex =
     andThen (validate_psk pskHex) (\<lambda>key.
     catch
       (andThen (emit ConnectTestbed) (\<lambda>_.
        andThen (if \<not> has_testbed_key e then emit (NdncertEmail email) else ret ()) (\<lambda>_.
        andThen (setupWorkspace e name key) (\<lambda>wksp.
        andThen (attach True PrintOnly name wksp channelName) (\<lambda>_.
        pending)))))
       (\<lambda>err. exit_process 1))"

section \<open>Resuming from the persisted record\<close>

text \<open>
  \<open>main\<close> of the second digest server, after the environment is initialised: when
  \<open>wksp.env\<close> parses, the agent is started from what the file holds, without \<open>await\<close> and
  without any check of the PSK; otherwise the control endpoint is started.
  \<^verbatim>\<open>
  try {
    const { wkspName, psk, channel } = JSON.parse(fs.readFileSync("./wksp.env", 'utf-8'));
    startAgent(wkspName, psk, channel);
  }
  catch {
    await startHttpServer();
  }
  \<close>
\<close>

definition main_resume :: "env \<Rightarrow> (string \<times> byte list \<times> string) option \<Rightarrow> unit act" where
  "main_resume e persisted =
     (case persisted of
        Some (name, key, channelName) \<Rightarrow> detach (startAgent_digest e name key channelName)
      | None \<Rightarrow> ret ())"

section \<open>Observations on a run\<close>

definition events_of :: "'a outcome \<times> event list \<times> state \<Rightarrow> event list" where
  "events_of r = fst (snd r)"

definition state_of :: "'a outcome \<times> event list \<times> state \<Rightarrow> state" where
  "state_of r = snd (snd r)"

fun is_Respond :: "event \<Rightarrow> bool" where
  "is_Respond (Respond code b) = True"
| "is_Respond _ = False"

fun is_Generate :: "event \<Rightarrow> bool" where
  "is_Generate (Generate prompt) = True"
| "is_Generate _ = False"

fun is_SendMail :: "event \<Rightarrow> bool" where
  "is_SendMail (SendMail html) = True"
| "is_SendMail _ = False"

fun is_LogStopping :: "event \<Rightarrow> bool" where
  "is_LogStopping (LogStopping name) = True"
| "is_LogStopping _ = False"

text \<open>The responses a handler writes.\<close>

definition responses :: "'a outcome \<times> event list \<times> state \<Rightarrow> event list" where
  "responses r = filter is_Respond (events_of r)"

text \<open>The result of a request whose PSK fails the check: thrown at once, nothing done.\<close>

definition rejected :: "state \<Rightarrow> unit outcome \<times> event list \<times> state" where
  "rejected s = (Threw (Error ''PSK must be exactly 32 bytes (64 hex characters)''), [], s)"

section \<open>Sample inputs\<close>

definition sample_wksp :: workspace where
  "sample_wksp =
     \<lparr>channels = [''general''],
      projects = [\<lparr>pname = ''calls'', files = [(''/agenda.md'', ''# Call## A## B## C'')]\<rparr>]\<rparr>"

definition empty_wksp :: workspace where
  "empty_wksp = \<lparr>channels = [''general''], projects = []\<rparr>"

definition sample_env :: env where
  "sample_env =
     \<lparr>Workspace_join = (\<lambda>name label trusted relaxed key st. Inr (st(name \<mapsto> \<lparr>ignore = relaxed\<rparr>))),
      Workspace_setup = (\<lambda>name. Inr sample_wksp),
      escapeUrlName = (\<lambda>name. name),
      has_testbed_key = True,
      get_identity_name = ''/ndn/agent'',
      now = 0,
      ai_generate = (\<lambda>prompt. Inr (''re: '' @ prompt)),
      markdown = (\<lambda>md. ''<p>'' @ md @ ''</p>''),
      read_template = Inr ''Hi<hr>old<hr>Bye'',
      send_mail = (\<lambda>html. Inr ''250 OK''),
      write_env = None\<rparr>"

definition fresh :: state where
  "fresh = \<lparr>activeAgent = None, stats = Map.empty, listeners = [], detached = []\<rparr>"

definition zero_psk :: string where
  "zero_psk = replicate 64 CHR ''0''"

definition short_psk :: string where
  "short_psk = replicate 62 CHR ''0''"

definition say :: "string \<Rightarrow> chat_message" where
  "say text = \<lparr>uuid = ''m1'', user = ''/ndn/alice'', ts = 1, message = text\<rparr>"

definition ask :: "string \<Rightarrow> request" where
  "ask name = \<lparr>wkspName = name, psk = zero_psk, channel = ''general''\<rparr>"

section \<open>Frame conditions\<close>

text \<open>
  An action keeps the slot \<open>globalThis._activeAgent\<close> as it found it and makes only calls
  that satisfy \<open>P\<close>.
\<close>

definition frame :: "(event \<Rightarrow> bool) \<Rightarrow> 'a act \<Rightarrow> bool" where
  "frame P m = (\<forall>s. activeAgent (state_of (m s)) = activeAgent s \<and>
                    list_all P (events_of (m s)))"

text \<open>The calls made behind the endpoint: no response, no log of a stopped agent.\<close>

definition backstage :: "event \<Rightarrow> bool" where
  "backstage ev = (\<not> is_Respond ev \<and> \<not> is_LogStopping ev)"

text \<open>The shape the three handlers of \<open>POST /agent\<close> share.\<close>

definition guarded :: "string \<Rightarrow> (byte list \<Rightarrow> unit act) \<Rightarrow> unit act" where
  "guarded p body =
     andThen (validate_psk p) (\<lambda>key.
     catch (andThen stop_previous (\<lambda>_. body key)) respond_error)"

section \<open>Properties of the string primitives\<close>

lemma index_in_match:
  "index_in pat s = Some i \<Longrightarrow> take (length pat) (drop i s) = pat"
  by (induction s arbitrary: i) (auto split: if_splits)

lemma index_in_bound:
  "index_in pat s = Some i \<Longrightarrow> i + length pat \<le> length s"
proof (induction s arbitrary: i)
  case Nil
  then show ?case by (auto split: if_splits)
next
  case (Cons c cs)
  show ?case
  proof (cases "take (length pat) (c # cs) = pat")
    case True
    then have "length pat = min (length (c # cs)) (length pat)"
      by (metis length_take)
    then have "length pat \<le> length (c # cs)" by linarith
    with True Cons.prems show ?thesis by simp
  next
    case False
    with Cons show ?thesis by auto
  qed
qed

lemma index_in_least:
  "index_in pat s = Some i \<Longrightarrow> j < i \<Longrightarrow> take (length pat) (drop j s) \<noteq> pat"
proof (induction s arbitrary: i j)
  case Nil
  then show ?case by (auto split: if_splits)
next
  case (Cons c cs)
  show ?case
  proof (cases "take (length pat) (c # cs) = pat")
    case True
    with Cons.prems show ?thesis by simp
  next
    case False
    with Cons.prems obtain i' where i': "index_in pat cs = Some i'" "i = Suc i'"
      by auto
    show ?thesis
    proof (cases j)
      case 0
      with False show ?thesis by simp
    next
      case (Suc j')
      with Cons.prems(2) i' have "j' < i'" by simp
      from Cons.IH [OF i'(1) this] Suc show ?thesis by simp
    qed
  qed
qed

lemma index_in_none:
  "index_in pat s = None \<Longrightarrow> take (length pat) (drop j s) \<noteq> pat"
proof (induction s arbitrary: j)
  case Nil
  then show ?case by (auto split: if_splits)
next
  case (Cons c cs)
  then show ?case by (cases j) (auto split: if_splits)
qed

lemma split_scan_index:
  "sep \<noteq> [] \<Longrightarrow> split_scan sep cur s =
     (case index_in sep s of
        None \<Rightarrow> [cur @ s]
      | Some i \<Rightarrow> (cur @ take i s) # split_scan sep [] (drop (i + length sep) s))"
proof (induction s arbitrary: cur)
  case Nil
  then show ?case by simp
next
  case (Cons c cs)
  show ?case
  proof (cases "take (length sep) (c # cs) = sep")
    case True
    with Cons.prems show ?thesis by simp
  next
    case False
    with Cons.prems Cons.IH [OF Cons.prems, of "cur @ [c]"] show ?thesis
      by (simp split: option.splits)
  qed
qed

lemma occ_scan_index:
  "pat \<noteq> [] \<Longrightarrow> occ_scan pat k s =
     (case index_in pat s of
        None \<Rightarrow> []
      | Some i \<Rightarrow> (k + i) # occ_scan pat (k + i + length pat) (drop (i + length pat) s))"
proof (induction s arbitrary: k)
  case Nil
  then show ?case by simp
next
  case (Cons c cs)
  show ?case
  proof (cases "take (length pat) (c # cs) = pat")
    case True
    with Cons.prems show ?thesis by simp
  next
    case False
    with Cons.prems Cons.IH [OF Cons.prems, of "Suc k"] show ?thesis
      by (simp split: option.splits)
  qed
qed


lemma occ_scan_shift:
  "pat \<noteq> [] \<Longrightarrow> occ_scan pat k s = map (\<lambda>j. k + j) (occ_scan pat 0 s)"
proof (induction "length s" arbitrary: s k rule: less_induct)
  case less
  show ?case
  proof (cases "index_in pat s")
    case None
    with less.prems show ?thesis by (simp add: occ_scan_index)
  next
    case (Some i)
    let ?s' = "drop (i + length pat) s"
    from index_in_bound [OF Some] less.prems have "length ?s' < length s"
      by (cases pat) auto
    note IH = less.hyps [OF this less.prems]
    have "occ_scan pat k s = (k + i) # occ_scan pat (k + i + length pat) ?s'"
      using Some less.prems by (simp add: occ_scan_index [of pat k s])
    moreover have "occ_scan pat 0 s = i # occ_scan pat (i + length pat) ?s'"
      using Some less.prems by (simp add: occ_scan_index [of pat 0 s])
    ultimately show ?thesis
      using IH [of "k + i + length pat"] IH [of "i + length pat"]
      by (simp add: add.assoc)
  qed
qed

lemma split_scan_nonempty: "split_scan sep cur s \<noteq> []"
  by (induction sep cur s rule: split_scan.induct) auto

lemma join_Cons: "ps \<noteq> [] \<Longrightarrow> join (p # ps) sep = p @ sep @ join ps sep"
  by (cases ps) auto

lemma join_take_split:
  assumes sep: "sep \<noteq> []"
  shows "join (take (Suc n) (split_scan sep [] s)) sep =
     (if n < length (occ_scan sep 0 s) then take (occ_scan sep 0 s ! n) s else s)"
proof (induction n arbitrary: s)
  case 0
  show ?case
    using sep
    by (cases "index_in sep s")
       (simp_all add: split_scan_index [of sep "[]" s] occ_scan_index [of sep 0 s])
next
  case (Suc n)
  show ?case
  proof (cases "index_in sep s")
    case None
    with sep show ?thesis
      by (simp add: split_scan_index [of sep "[]" s] occ_scan_index [of sep 0 s])
  next
    case (Some i)
    let ?s' = "drop (i + length sep) s"
    let ?O' = "occ_scan sep 0 ?s'"
    have P: "split_scan sep [] s = take i s # split_scan sep [] ?s'"
      using Some sep by (simp add: split_scan_index [of sep "[]" s])
    have O: "occ_scan sep 0 s = i # map (\<lambda>j. i + length sep + j) ?O'"
      using Some sep occ_scan_shift [OF sep, of "i + length sep" ?s']
      by (simp add: occ_scan_index [of sep 0 s])
    have ne: "take (Suc n) (split_scan sep [] ?s') \<noteq> []"
      using split_scan_nonempty [of sep "[]" ?s'] by (cases "split_scan sep [] ?s'") auto
    have J: "join (take (Suc (Suc n)) (split_scan sep [] s)) sep =
               take i s @ sep @ join (take (Suc n) (split_scan sep [] ?s')) sep"
      using P ne by (simp add: join_Cons del: take_Suc_Cons) (simp add: join_Cons)
    have m: "take (length sep) (drop i s) = sep"
      by (rule index_in_match [OF Some])
    have il: "i \<le> length s"
      using index_in_bound [OF Some] by simp
    have dec: "s = take i s @ sep @ ?s'"
    proof -
      have "drop i s = take (length sep) (drop i s) @ drop (length sep) (drop i s)"
        by (rule append_take_drop_id [symmetric])
      then have "drop i s = sep @ ?s'"
        using m by (simp add: add.commute)
      then show ?thesis
        by (metis append_take_drop_id)
    qed
    show ?thesis
    proof (cases "n < length ?O'")
      case True
      have "take (i + length sep + ?O' ! n) s =
              take (i + length sep + ?O' ! n) (take i s @ sep @ ?s')"
        using dec by simp
      also have "\<dots> = take i s @ sep @ take (?O' ! n) ?s'"
        using il by simp
      finally show ?thesis
        using True J O Suc.IH [of ?s'] by simp
    next
      case False
      then show ?thesis
        using J O Suc.IH [of ?s'] dec by simp
    qed
  qed
qed


lemma occ_scan_hd:
  assumes "pat \<noteq> []" "occ_scan pat 0 s \<noteq> []"
  shows "index_in pat s = Some (occ_scan pat 0 s ! 0)"
  using assms by (cases "index_in pat s") (simp_all add: occ_scan_index [of pat 0 s])

lemma occ_scan_second:
  assumes pat: "pat \<noteq> []" and two: "2 \<le> length (occ_scan pat 0 s)"
  shows "index_in pat (drop (occ_scan pat 0 s ! 0 + length pat) s)
           = Some (occ_scan pat 0 s ! 1 - (occ_scan pat 0 s ! 0 + length pat))
         \<and> occ_scan pat 0 s ! 0 + length pat \<le> occ_scan pat 0 s ! 1"
proof (cases "index_in pat s")
  case None
  with pat two show ?thesis by (simp add: occ_scan_index [of pat 0 s])
next
  case (Some i)
  let ?s' = "drop (i + length pat) s"
  have O: "occ_scan pat 0 s = i # map (\<lambda>j. i + length pat + j) (occ_scan pat 0 ?s')"
    using Some pat occ_scan_shift [OF pat, of "i + length pat" ?s']
    by (simp add: occ_scan_index [of pat 0 s])
  with two have ne: "occ_scan pat 0 ?s' \<noteq> []" by auto
  from occ_scan_hd [OF pat ne] O ne show ?thesis
    by (cases "occ_scan pat 0 ?s'") auto
qed

lemma clamp_pos_nat: "clamp_pos s (int n) = min n (length s)"
  by (simp add: clamp_pos_def)

lemma indexOf_nat:
  "n \<le> length s \<Longrightarrow>
   indexOf s pat (int n) = (case index_in pat (drop n s) of None \<Rightarrow> - 1 | Some i \<Rightarrow> int (n + i))"
  by (simp add: indexOf_def clamp_pos_nat min_def)

lemma substring_from_drop: "n \<le> length s \<Longrightarrow> substring_from s (int n) = drop n s"
  by (simp add: substring_from_def substring_def clamp_pos_def min_def max_def)

subsection \<open>What the occurrences are\<close>

text \<open>
  Every occurrence is an offset where the marker stands, and each one starts at or after
  the end of the one before.
\<close>

lemma index_in_Some_iff_first:
  assumes "pat \<noteq> []" "matches_at s pat j"
  shows "\<exists>i. index_in pat s = Some i \<and> i \<le> j"
proof (cases "index_in pat s")
  case None
  with index_in_none [OF None, of j] assms(2) show ?thesis by (simp add: matches_at_def)
next
  case (Some i)
  have "i \<le> j"
  proof (rule ccontr)
    assume "\<not> i \<le> j"
    then have "j < i" by simp
    with index_in_least [OF Some this] assms(2) show False by (simp add: matches_at_def)
  qed
  with Some show ?thesis by simp
qed

lemma occ_scan_step:
  assumes "pat \<noteq> []" "index_in pat s = Some k"
  shows "occ_scan pat 0 s =
           k # map (\<lambda>j. k + length pat + j) (occ_scan pat 0 (drop (k + length pat) s))"
  using assms occ_scan_shift [OF assms(1), of "k + length pat" "drop (k + length pat) s"]
  by (simp add: occ_scan_index [of pat 0 s])

lemma matches_at_hr:
  "matches_at s ''<hr>'' i = (i + 4 \<le> length s \<and> take 4 (drop i s) = ''<hr>'')"
  by (simp add: matches_at_def eval_nat_numeral)

lemma occ_scan_matches:
  assumes "pat \<noteq> []"
  shows "i \<in> set (occ_scan pat 0 s) \<Longrightarrow> matches_at s pat i"
proof (induction "length s" arbitrary: s i rule: less_induct)
  case less
  show ?case
  proof (cases "index_in pat s")
    case None
    with less.prems assms show ?thesis by (simp add: occ_scan_index [of pat 0 s])
  next
    case (Some k)
    let ?s' = "drop (k + length pat) s"
    have O: "occ_scan pat 0 s = k # map (\<lambda>j. k + length pat + j) (occ_scan pat 0 ?s')"
      using Some assms occ_scan_shift [OF assms, of "k + length pat" ?s']
      by (simp add: occ_scan_index [of pat 0 s])
    from index_in_bound [OF Some] assms have shorter: "length ?s' < length s"
      by (cases pat) auto
    show ?thesis
    proof (cases "i = k")
      case True
      with index_in_match [OF Some] index_in_bound [OF Some] show ?thesis
        by (simp add: matches_at_def)
    next
      case False
      with less.prems O obtain j where j: "j \<in> set (occ_scan pat 0 ?s')"
        and i: "i = k + length pat + j" by auto
      from less.hyps [OF shorter j] have "matches_at ?s' pat j" .
      with i index_in_bound [OF Some] show ?thesis
        by (auto simp add: matches_at_def add.commute add.left_commute)
    qed
  qed
qed

lemma occ_scan_increasing:
  assumes "pat \<noteq> []"
  shows "sorted_wrt (\<lambda>i j. i + length pat \<le> j) (occ_scan pat 0 s)"
proof (induction "length s" arbitrary: s rule: less_induct)
  case less
  show ?case
  proof (cases "index_in pat s")
    case None
    with assms show ?thesis by (simp add: occ_scan_index [of pat 0 s])
  next
    case (Some k)
    let ?s' = "drop (k + length pat) s"
    have O: "occ_scan pat 0 s = k # map (\<lambda>j. k + length pat + j) (occ_scan pat 0 ?s')"
      using Some assms occ_scan_shift [OF assms, of "k + length pat" ?s']
      by (simp add: occ_scan_index [of pat 0 s])
    from index_in_bound [OF Some] assms have shorter: "length ?s' < length s"
      by (cases pat) auto
    from less.hyps [OF shorter] show ?thesis
      by (simp add: O sorted_wrt_map)
  qed
qed

text \<open>Two matches of \<open><hr>\<close> cannot overlap: no proper suffix of it is a prefix of it.\<close>

lemma hr_no_overlap:
  assumes i: "matches_at s ''<hr>'' i" and j: "matches_at s ''<hr>'' j" and lt: "i < j"
  shows "i + 4 \<le> j"
proof (rule ccontr)
  assume "\<not> i + 4 \<le> j"
  with lt have d: "j - i = 1 \<or> j - i = 2 \<or> j - i = 3" by arith
  from i have "take 4 (drop i s) = ''<hr>''" by (simp add: matches_at_hr)
  then obtain rest where ri: "drop i s = ''<hr>'' @ rest"
    by (metis append_take_drop_id)
  have "drop j s = drop (j - i) (drop i s)" using lt by simp
  with ri have "drop j s = drop (j - i) (''<hr>'' @ rest)" by simp
  moreover from j have "take 4 (drop j s) = ''<hr>''" by (simp add: matches_at_hr)
  ultimately show False using d by auto
qed

lemma hr_occurrences_complete:
  "matches_at s ''<hr>'' j \<Longrightarrow> j \<in> set (occ_scan ''<hr>'' 0 s)"
proof (induction "length s" arbitrary: s j rule: less_induct)
  case less
  have pat: "''<hr>'' \<noteq> []" by simp
  have len: "length ''<hr>'' = 4" by simp
  from index_in_Some_iff_first [OF pat less.prems]
  obtain k where k: "index_in ''<hr>'' s = Some k" and kj: "k \<le> j" by blast
  let ?s' = "drop (k + 4) s"
  note O = occ_scan_step [OF pat k, unfolded len]
  from index_in_bound [OF k, unfolded len] have shorter: "length ?s' < length s" by simp
  have mk: "matches_at s ''<hr>'' k"
    using index_in_match [OF k, unfolded len] index_in_bound [OF k, unfolded len]
    by (simp add: matches_at_hr)
  show ?case
  proof (cases "j = k")
    case True
    with O show ?thesis by simp
  next
    case False
    with kj have "k < j" by simp
    from hr_no_overlap [OF mk less.prems this] have far: "k + 4 \<le> j" .
    then have "matches_at ?s' ''<hr>'' (j - (k + 4))"
      using less.prems by (auto simp add: matches_at_hr add.commute)
    from less.hyps [OF shorter this] far show ?thesis
      by (auto simp add: O image_iff intro!: bexI [of _ "j - (k + 4)"])
  qed
qed

text \<open>
  So for \<open><hr>\<close> the occurrences are all the offsets where it stands, in increasing
  order: the first and the second occurrence are the first and the second match.
\<close>

lemma hr_occurrences_all:
  "set (occurrences s ''<hr>'') = {i. matches_at s ''<hr>'' i}"
  using occ_scan_matches [of "''<hr>''" _ s] hr_occurrences_complete [of s]
  by (auto simp add: occurrences_def)

section \<open>Digest extraction\<close>

lemma substring_prefix: "substring s 0 (int n) = take n s"
  by (simp add: substring_def clamp_pos_def min_def)

text \<open>
  C3. For every document text, the digest extraction \<open>cutText\<close> returns the prefix of the
  text that ends just before the start offset of the third occurrence of the marker
  \<open>##\<close>; when the text has two or fewer occurrences of the marker, the extraction window
  is the entire document. Occurrences are counted left to right without overlap, as the
  split on the marker finds them.
\<close>

theorem cutText_third_occurrence:
  "cutText mdText =
     (if 3 \<le> length (occurrences mdText ''##'')
      then take (occurrences mdText ''##'' ! 2) mdText
      else mdText)"
proof -
  have ne: "''##'' \<noteq> []" by simp
  have "join (split_limit mdText ''##'' 3) ''##'' =
          (if 2 < length (occ_scan ''##'' 0 mdText)
           then take (occ_scan ''##'' 0 mdText ! 2) mdText else mdText)"
    using join_take_split [OF ne, of 2 mdText]
    by (simp add: split_limit_def split_all_def numeral_3_eq_3)
  moreover have "take (min (length mdText) k) mdText = take k mdText" for k
    by (simp add: min_def)
  ultimately show ?thesis
    by (auto simp add: cutText_def thirdHeaderPos_def substring_prefix occurrences_def)
qed

theorem cutText_third_occurrence_witness:
  "cutText ''a##b##c##d'' = ''a##b##c'' \<and> cutText ''a##b##c'' = ''a##b##c''"
  using cutText_third_occurrence [of "''a##b##c##d''"]
        cutText_third_occurrence [of "''a##b##c''"]
  by (simp add: occurrences_def)

section \<open>Template splicing\<close>

text \<open>
  C4. For every mail template with at least two occurrences of \<open><hr>\<close> and every rendered
  fragment, the splice is the template up to and including the first \<open><hr>\<close>, unchanged,
  then the fragment, then the template from the second \<open><hr>\<close> to its end, unchanged: only
  what lies strictly between the first and the second occurrence is replaced. (By
  \<open>hr_occurrences_all\<close> and \<open>occ_scan_increasing\<close> the occurrences of \<open><hr>\<close> are all the
  offsets where it stands, in increasing order.)
\<close>

theorem splice_between_delimiters:
  assumes "2 \<le> length (occurrences email ''<hr>'')"
  shows "splice email html =
           take (occurrences email ''<hr>'' ! 0 + 4) email @ html @
           drop (occurrences email ''<hr>'' ! 1) email"
proof -
  let ?O = "occ_scan ''<hr>'' 0 email"
  have pat: "''<hr>'' \<noteq> []" by simp
  from assms have two: "2 \<le> length ?O" by (simp add: occurrences_def)
  then have ne: "?O \<noteq> []" by auto
  have first: "index_in ''<hr>'' email = Some (?O ! 0)"
    by (rule occ_scan_hd [OF pat ne])
  have len: "length ''<hr>'' = 4" by simp
  have b1: "?O ! 0 + 4 \<le> length email"
    using index_in_bound [OF first] unfolding len .
  note snd = occ_scan_second [OF pat two, unfolded len]
  have second: "index_in ''<hr>'' (drop (?O ! 0 + 4) email) = Some (?O ! 1 - (?O ! 0 + 4))"
    using snd by (rule conjunct1)
  have le: "?O ! 0 + 4 \<le> ?O ! 1"
    using snd by (rule conjunct2)
  have b2: "?O ! 1 \<le> length email"
    using index_in_bound [OF second, unfolded len] le b1 by simp
  have h1: "hr1 email = int (?O ! 0 + 4)"
    using first indexOf_nat [of 0 email "''<hr>''"] by (simp add: hr1_def)
  have h2: "hr2 email = int (?O ! 1)"
    unfolding hr2_def h1 indexOf_nat [OF b1] second using le by simp
  show ?thesis
    using substring_prefix [of email "?O ! 0 + 4"] substring_from_drop [OF b2]
    by (simp add: splice_def h1 h2 occurrences_def)
qed

theorem splice_between_delimiters_witness:
  "2 \<le> length (occurrences ''X<hr>old<hr>Y'' ''<hr>'') \<and>
   splice ''X<hr>old<hr>Y'' ''NEW'' = ''X<hr>NEW<hr>Y''"
  using splice_between_delimiters [of "''X<hr>old<hr>Y''" "''NEW''"]
  by (simp add: occurrences_def)


lemma index_in_drop_none:
  assumes "index_in pat s = None"
  shows "index_in pat (drop k s) = None"
proof (cases "index_in pat (drop k s)")
  case None
  then show ?thesis .
next
  case (Some i)
  from index_in_match [OF Some] have "take (length pat) (drop (i + k) s) = pat" by simp
  with index_in_none [OF assms, of "i + k"] show ?thesis by simp
qed

text \<open>
  Without any \<open><hr>\<close> in the template the two searches give \<open>-1\<close>, and the splice is the
  first three code units of the template, the fragment, and the whole template again.
\<close>

lemma splice_without_delimiter:
  assumes "index_in ''<hr>'' email = None"
  shows "splice email html = take 3 email @ html @ email"
proof -
  have h1: "hr1 email = 3"
    using assms indexOf_nat [of 0 email "''<hr>''"] by (simp add: hr1_def)
  have "indexOf email ''<hr>'' 3 = - 1"
    using index_in_drop_none [OF assms] by (simp add: indexOf_def)
  then have h2: "hr2 email = - 1" by (simp add: hr2_def h1)
  have "substring email 0 3 = take 3 email"
    using substring_prefix [of email 3] by simp
  moreover have "substring_from email (- 1) = email"
    by (simp add: substring_from_def substring_def clamp_pos_def)
  ultimately show ?thesis by (simp add: splice_def h1 h2)
qed

section \<open>Sequencing and frames\<close>

lemmas act_defs = ret_def throw_def exit_process_def pending_def emit_def andThen_def
  catch_def detach_def

lemmas obs_defs = events_of_def state_of_def

lemmas call_defs = stats_get_def stats_put_def join_call_def setup_call_def generate_call_def
  sendMessage_def read_template_call_def send_mail_call_def subscribe_def write_env_call_def
  stop_previous_def respond_ok_def respond_error_def set_ignore_def validate_psk_def attach_def

lemmas js_defs = substring_def substring_from_def clamp_pos_def indexOf_def split_limit_def
  split_all_def cutText_def thirdHeaderPos_def hr1_def hr2_def splice_def

lemma frameI:
  assumes "\<And>s r ev s'. m s = (r, ev, s') \<Longrightarrow> activeAgent s' = activeAgent s \<and> list_all P ev"
  shows "frame P m"
  unfolding frame_def obs_defs
proof
  fix s
  obtain r ev s' where "m s = (r, ev, s')" by (cases "m s") auto
  with assms [OF this]
  show "activeAgent (snd (snd (m s))) = activeAgent s \<and> list_all P (fst (snd (m s)))"
    by simp
qed

lemma frameD:
  assumes "frame P m" "m s = (r, ev, s')"
  shows "activeAgent s' = activeAgent s" "list_all P ev"
  using assms unfolding frame_def obs_defs by (metis fst_conv snd_conv)+

lemma frame_mono: "frame P m \<Longrightarrow> (\<And>ev. P ev \<Longrightarrow> Q ev) \<Longrightarrow> frame Q m"
  unfolding frame_def by (auto simp add: list_all_iff)

lemma frame_ret: "frame P (ret x)"
  by (simp add: frame_def ret_def obs_defs)

lemma frame_throw: "frame P (throw e)"
  by (simp add: frame_def throw_def obs_defs)

lemma frame_exit: "frame P (exit_process n)"
  by (simp add: frame_def exit_process_def obs_defs)

lemma frame_pending: "frame P pending"
  by (simp add: frame_def pending_def obs_defs)

lemma frame_emit: "P ev \<Longrightarrow> frame P (emit ev)"
  by (simp add: frame_def emit_def obs_defs)

lemma frame_andThen:
  assumes m: "frame P m" and f: "\<And>x. frame P (f x)"
  shows "frame P (andThen m f)"
proof (rule frameI)
  fix s r ev s'
  assume run: "andThen m f s = (r, ev, s')"
  obtain r1 ev1 s1 where m1: "m s = (r1, ev1, s1)" by (cases "m s") auto
  note d1 = frameD [OF m m1]
  show "activeAgent s' = activeAgent s \<and> list_all P ev"
  proof (cases r1)
    case (Returned x)
    obtain r2 ev2 s2 where f2: "f x s1 = (r2, ev2, s2)" by (cases "f x s1") auto
    note d2 = frameD [OF f f2]
    from run m1 Returned f2 have "ev = ev1 @ ev2" "s' = s2"
      by (simp_all add: andThen_def)
    with d1 d2 show ?thesis by simp
  next
    case (Threw e)
    with run m1 d1 show ?thesis by (simp add: andThen_def)
  next
    case (Exited n)
    with run m1 d1 show ?thesis by (simp add: andThen_def)
  next
    case Pending
    with run m1 d1 show ?thesis by (simp add: andThen_def)
  qed
qed

lemma frame_catch:
  assumes m: "frame P m" and h: "\<And>err. frame P (h err)"
  shows "frame P (catch m h)"
proof (rule frameI)
  fix s r ev s'
  assume run: "catch m h s = (r, ev, s')"
  obtain r1 ev1 s1 where m1: "m s = (r1, ev1, s1)" by (cases "m s") auto
  note d1 = frameD [OF m m1]
  show "activeAgent s' = activeAgent s \<and> list_all P ev"
  proof (cases r1)
    case (Threw err)
    obtain r2 ev2 s2 where h2: "h err s1 = (r2, ev2, s2)" by (cases "h err s1") auto
    note d2 = frameD [OF h h2]
    from run m1 Threw h2 have "ev = ev1 @ ev2" "s' = s2"
      by (simp_all add: catch_def)
    with d1 d2 show ?thesis by simp
  next
    case (Returned x)
    with run m1 d1 show ?thesis by (simp add: catch_def)
  next
    case (Exited n)
    with run m1 d1 show ?thesis by (simp add: catch_def)
  next
    case Pending
    with run m1 d1 show ?thesis by (simp add: catch_def)
  qed
qed

lemma frame_detach:
  assumes m: "frame P m"
  shows "frame P (detach m)"
proof (rule frameI)
  fix s r ev s'
  assume run: "detach m s = (r, ev, s')"
  obtain r1 ev1 s1 where m1: "m s = (r1, ev1, s1)" by (cases "m s") auto
  note d1 = frameD [OF m m1]
  from run m1 d1 show "activeAgent s' = activeAgent s \<and> list_all P ev"
    by (cases r1) (auto simp add: detach_def)
qed

lemma frame_stats_get: "frame P (stats_get name)"
  by (simp add: frame_def stats_get_def obs_defs)

lemma frame_stats_put: "frame backstage (stats_put name m)"
  by (simp add: frame_def stats_put_def obs_defs backstage_def)

lemma frame_join_call: "frame backstage (join_call e name label trusted relaxed key)"
  by (simp add: frame_def join_call_def obs_defs backstage_def split: sum.splits)

lemma frame_setup_call: "frame backstage (setup_call e name)"
  by (simp add: frame_def setup_call_def obs_defs backstage_def split: sum.splits)

lemma frame_set_ignore: "frame P (set_ignore m)"
  by (simp add: set_ignore_def frame_throw frame_ret split: option.splits)

lemma frame_subscribe: "frame backstage (subscribe l)"
  by (simp add: frame_def subscribe_def obs_defs backstage_def)

lemma frame_sendMessage: "frame backstage (sendMessage e c text)"
  by (simp add: sendMessage_def frame_emit backstage_def)

lemma frame_write_env_call: "frame backstage (write_env_call e req key)"
  by (simp add: frame_def write_env_call_def obs_defs backstage_def split: option.splits)

lemma frame_setupWorkspace: "frame backstage (setupWorkspace e name key)"
  unfolding setupWorkspace_def
  by (intro frame_andThen frame_stats_get frame_setup_call)
     (simp add: frame_join_call frame_ret)

lemma frame_setupWorkspace_digest: "frame backstage (setupWorkspace_digest e name key)"
  unfolding setupWorkspace_digest_def
  by (intro frame_andThen frame_stats_get frame_setup_call frame_set_ignore frame_stats_put)
     (simp add: frame_join_call frame_ret)

lemma frame_attach: "frame backstage (attach check m name wksp c)"
  by (simp add: attach_def frame_exit frame_subscribe)

lemma frame_startAgent: "frame backstage (startAgent e name key c)"
  unfolding startAgent_def
  by (intro frame_andThen frame_setupWorkspace frame_attach frame_pending)

lemma frame_startAgent_report: "frame backstage (startAgent_report e name key c)"
  unfolding startAgent_report_def
  by (intro frame_andThen frame_setupWorkspace_digest frame_attach frame_pending)

lemma frame_startAgent_digest: "frame backstage (startAgent_digest e name key c)"
  unfolding startAgent_digest_def
  by (intro frame_andThen frame_setupWorkspace_digest frame_attach frame_pending
      frame_sendMessage)

lemma frame_respond_ok: "frame (\<lambda>ev. \<not> is_LogStopping ev) (respond_ok req)"
  by (simp add: respond_ok_def frame_emit)

lemma frame_respond_error: "frame (\<lambda>ev. \<not> is_LogStopping ev) (respond_error err)"
  by (simp add: respond_error_def frame_emit)

lemma backstage_quiet: "backstage ev \<Longrightarrow> \<not> is_LogStopping ev"
  by (simp add: backstage_def)

lemma post_agent_guarded:
  "post_agent e req = guarded (psk req) (\<lambda>key.
     andThen (startAgent e (wkspName req) key (channel req)) (\<lambda>_. respond_ok req))"
  by (simp add: post_agent_def guarded_def)

lemma post_agent_report_guarded:
  "post_agent_report e req = guarded (psk req) (\<lambda>key.
     andThen (respond_ok req) (\<lambda>_.
       detach (startAgent_report e (wkspName req) key (channel req))))"
  by (simp add: post_agent_report_def guarded_def)

lemma post_agent_digest_guarded:
  "post_agent_digest e req = guarded (psk req) (\<lambda>key.
     andThen (write_env_call e req key) (\<lambda>_.
     andThen (respond_ok req) (\<lambda>_.
       detach (startAgent_digest e (wkspName req) key (channel req)))))"
  by (simp add: post_agent_digest_def guarded_def)

lemma guarded_rejected:
  "length (hex_decode p) \<noteq> 32 \<Longrightarrow> guarded p body s = rejected s"
  by (simp add: guarded_def validate_psk_def act_defs rejected_def)

lemma guarded_slot:
  assumes body: "\<And>key. frame (\<lambda>ev. \<not> is_LogStopping ev) (body key)"
  shows "activeAgent s = None \<Longrightarrow>
           activeAgent (state_of (guarded p body s)) = None \<and>
           list_all (\<lambda>ev. \<not> is_LogStopping ev) (events_of (guarded p body s))"
proof -
  assume none: "activeAgent s = None"
  let ?Q = "\<lambda>ev. \<not> is_LogStopping ev"
  show ?thesis
  proof (cases "length (hex_decode p) = 32")
    case False
    with none show ?thesis by (simp add: guarded_rejected rejected_def obs_defs)
  next
    case True
    let ?t = "catch (body (hex_decode p)) respond_error"
    have t: "frame ?Q ?t"
      by (intro frame_catch body frame_respond_error)
    have "guarded p body s = ?t s"
      using True none
      by (simp add: guarded_def validate_psk_def stop_previous_def act_defs
          split: prod.splits outcome.splits)
    moreover obtain r ev s' where run: "?t s = (r, ev, s')" by (cases "?t s") auto
    ultimately show ?thesis
      using frameD [OF t run] none by (simp add: obs_defs)
  qed
qed

lemma serve_slot:
  assumes h: "\<And>req s. activeAgent s = None \<Longrightarrow>
             activeAgent (state_of (h req s)) = None \<and>
             list_all (\<lambda>ev. \<not> is_LogStopping ev) (events_of (h req s))"
  shows "activeAgent s = None \<Longrightarrow>
           activeAgent (snd (serve h reqs s)) = None \<and>
           list_all (\<lambda>ev. \<not> is_LogStopping ev) (fst (serve h reqs s))"
proof (induction reqs arbitrary: s)
  case Nil
  then show ?case by simp
next
  case (Cons req reqs)
  obtain r ev s' where run: "h req s = (r, ev, s')" by (cases "h req s") auto
  from h [OF Cons.prems, of req] run
  have s': "activeAgent s' = None" and ev: "list_all (\<lambda>ev. \<not> is_LogStopping ev) ev"
    by (simp_all add: obs_defs)
  obtain ev2 s2 where rest: "serve h reqs s' = (ev2, s2)" by (cases "serve h reqs s'") auto
  from Cons.IH [OF s'] rest
  have "activeAgent s2 = None" "list_all (\<lambda>ev. \<not> is_LogStopping ev) ev2" by simp_all
  with run rest s' ev show ?case by (cases r) simp_all
qed

lemma frame_post_body:
  "frame (\<lambda>ev. \<not> is_LogStopping ev)
     (andThen (startAgent e name key c) (\<lambda>_. respond_ok req))"
  by (intro frame_andThen frame_respond_ok frame_mono [OF frame_startAgent backstage_quiet])

lemma frame_post_report_body:
  "frame (\<lambda>ev. \<not> is_LogStopping ev)
     (andThen (respond_ok req) (\<lambda>_. detach (startAgent_report e name key c)))"
  by (intro frame_andThen frame_detach frame_respond_ok
      frame_mono [OF frame_startAgent_report backstage_quiet])

lemma frame_post_digest_body:
  "frame (\<lambda>ev. \<not> is_LogStopping ev)
     (andThen (write_env_call e req key) (\<lambda>_.
      andThen (respond_ok req) (\<lambda>_. detach (startAgent_digest e name key c))))"
  by (intro frame_andThen frame_detach frame_respond_ok
      frame_mono [OF frame_startAgent_digest backstage_quiet]
      frame_mono [OF frame_write_env_call backstage_quiet])

lemma guarded_valid:
  assumes "length (hex_decode p) = 32"
  shows "guarded p body s =
     (case catch (body (hex_decode p)) respond_error (s\<lparr>activeAgent := None\<rparr>) of
        (r, ev, s') \<Rightarrow>
          (r, (case activeAgent s of Some a \<Rightarrow> [LogStopping (a_wkspName a)] | None \<Rightarrow> []) @ ev,
           s'))"
proof -
  let ?s0 = "s\<lparr>activeAgent := None\<rparr>"
  obtain r ev s' where run: "body (hex_decode p) ?s0 = (r, ev, s')"
    by (cases "body (hex_decode p) ?s0") auto
  show ?thesis
  proof (cases "activeAgent s")
    case None
    then have "?s0 = s" by simp
    with run have "body (hex_decode p) s = (r, ev, s')" by simp
    with assms None run show ?thesis
      by (cases r)
         (simp_all add: guarded_def validate_psk_def stop_previous_def respond_error_def
          act_defs)
  next
    case (Some a)
    with assms run show ?thesis
      by (cases r)
         (simp_all add: guarded_def validate_psk_def stop_previous_def respond_error_def
          act_defs)
  qed
qed

lemma guarded_slot_any:
  assumes body: "\<And>key. frame (\<lambda>ev. \<not> is_LogStopping ev) (body key)"
  shows "activeAgent (state_of (guarded p body s)) = None \<or>
         activeAgent (state_of (guarded p body s)) = activeAgent s"
proof (cases "length (hex_decode p) = 32")
  case False
  then show ?thesis by (simp add: guarded_rejected rejected_def obs_defs)
next
  case True
  let ?t = "catch (body (hex_decode p)) respond_error"
  let ?s0 = "s\<lparr>activeAgent := None\<rparr>"
  have t: "frame (\<lambda>ev. \<not> is_LogStopping ev) ?t"
    by (intro frame_catch body frame_respond_error)
  obtain r ev s' where run: "?t ?s0 = (r, ev, s')" by (cases "?t ?s0") auto
  have "state_of (guarded p body s) = s'"
    by (simp add: guarded_valid [OF True] run obs_defs)
  with frameD(1) [OF t run] show ?thesis by simp
qed

section \<open>PSK validation\<close>

lemma unhex_0: "unhex CHR ''0'' = Some 0"
  by (simp add: unhex_def)

lemma hex_decode_zeros: "hex_decode (replicate (2 * n) CHR ''0'') = replicate n 0"
  by (induction n) (simp_all add: unhex_0)

lemma hex_zero_psk: "hex_decode zero_psk = replicate 32 0"
  using hex_decode_zeros [of 32] by (simp add: zero_psk_def)

lemma hex_short_psk: "hex_decode short_psk = replicate 31 0"
  using hex_decode_zeros [of 31] by (simp add: short_psk_def)

lemma main_cli_rejected:
  "length (hex_decode p) \<noteq> 32 \<Longrightarrow> main_cli e name c email p s = rejected s"
  by (simp add: main_cli_def validate_psk_def act_defs rejected_def)

text \<open>
  C5, as stated, fails: \<open>setupWorkspace\<close> makes no check of the PSK. Resuming from a
  persisted record whose PSK has 31 bytes reaches the join call with that PSK.
\<close>

theorem resume_joins_with_short_psk:
  "length (hex_decode short_psk) \<noteq> 32 \<and>
   events_of (main_resume sample_env (Some (''w'', hex_decode short_psk, ''general'')) fresh) =
     [Join ''w'' ''w'' False True (hex_decode short_psk)]"
  by (simp add: main_resume_def startAgent_digest_def setupWorkspace_digest_def act_defs
      call_defs hex_short_psk sample_env_def fresh_def events_of_def)

text \<open>
  C5, amended. For every PSK text whose decoded length is not exactly 32 bytes, the three
  handlers of \<open>POST /agent\<close> and the command-line \<open>main\<close> throw the validation error
  before anything else: no event is issued (no join, no other call) and the state is
  unchanged. The all-zero PSK of 64 hexadecimal characters passes the check.
\<close>

theorem psk_checked_at_entry:
  "(length (hex_decode pskHex) \<noteq> 32 \<longrightarrow>
      post_agent e \<lparr>wkspName = name, psk = pskHex, channel = c\<rparr> s = rejected s \<and>
      post_agent_report e \<lparr>wkspName = name, psk = pskHex, channel = c\<rparr> s = rejected s \<and>
      post_agent_digest e \<lparr>wkspName = name, psk = pskHex, channel = c\<rparr> s = rejected s \<and>
      main_cli e name c email pskHex s = rejected s) \<and>
   validate_psk zero_psk s = (Returned (replicate 32 0), [], s)"
  by (simp add: post_agent_guarded post_agent_report_guarded post_agent_digest_guarded
      guarded_rejected main_cli_rejected validate_psk_def hex_zero_psk ret_def)

theorem psk_checked_at_entry_witness:
  "length (hex_decode short_psk) \<noteq> 32 \<and>
   post_agent sample_env \<lparr>wkspName = ''w'', psk = short_psk, channel = ''general''\<rparr> fresh =
     (Threw (Error ''PSK must be exactly 32 bytes (64 hex characters)''), [], fresh) \<and>
   main_cli sample_env ''w'' ''general'' ''a@b'' short_psk fresh =
     (Threw (Error ''PSK must be exactly 32 bytes (64 hex characters)''), [], fresh)"
  using psk_checked_at_entry [of short_psk sample_env "''w''" "''general''" fresh "''a@b''"]
  by (simp add: hex_short_psk rejected_def)

section \<open>Workspace setup\<close>

text \<open>
  C10. In the digest variants, for every workspace name with no stored metadata,
  \<open>setupWorkspace\<close> issues the join and then sets \<open>ignore\<close> on the absent metadata: once
  the join has returned it throws a \<open>TypeError\<close>, having stored nothing (no \<open>stats.put\<close>)
  and without reaching \<open>Workspace.setup\<close>, so no session handle is returned. (When the
  join call itself throws, that error is what \<open>setupWorkspace\<close> throws.)
\<close>

theorem setupWorkspace_digest_unjoined:
  assumes "stats s name = None"
  shows "setupWorkspace_digest e name key s =
     (case Workspace_join e name name False True key (stats s) of
        Inl err \<Rightarrow> (Threw err, [Join name name False True key], s)
      | Inr st \<Rightarrow>
          (Threw (TypeError ''Cannot set properties of undefined (setting ignore)''),
           [Join name name False True key], s\<lparr>stats := st\<rparr>))"
  using assms
  by (simp add: setupWorkspace_digest_def stats_get_def join_call_def set_ignore_def act_defs
      split: sum.splits)

theorem setupWorkspace_digest_unjoined_witness:
  "stats fresh ''w'' = None \<and>
   setupWorkspace_digest sample_env ''w'' (replicate 32 0) fresh =
     (Threw (TypeError ''Cannot set properties of undefined (setting ignore)''),
      [Join ''w'' ''w'' False True (replicate 32 0)],
      fresh\<lparr>stats := [''w'' \<mapsto> \<lparr>ignore = True\<rparr>]\<rparr>)"
  using setupWorkspace_digest_unjoined [of fresh "''w''" sample_env "replicate 32 0"]
  by (simp add: fresh_def sample_env_def)

section \<open>The listeners\<close>

lemma starts_with_sentinel:
  "(substring m 0 7 \<noteq> AGENT_ID) = (\<not> prefix AGENT_ID m)"
proof -
  have "substring m 0 7 = take 7 m"
    using substring_prefix [of m 7] by simp
  moreover have "(take 7 m = AGENT_ID) = prefix AGENT_ID m"
  proof
    assume "take 7 m = AGENT_ID"
    then show "prefix AGENT_ID m" by (metis take_is_prefix)
  next
    assume "prefix AGENT_ID m"
    then obtain rest where "m = AGENT_ID @ rest" by (auto simp add: prefix_def)
    then show "take 7 m = AGENT_ID" by (simp add: AGENT_ID_def)
  qed
  ultimately show ?thesis by simp
qed

lemma find_agenda_sample: "find_agenda sample_wksp = Some ''# Call## A## B## C''"
  by (simp add: find_agenda_def scan_files_def sample_wksp_def)

lemma sample_cut: "cutText ''# Call## A## B## C'' = ''# Call## A## B''"
  by (simp add: js_defs)

lemma sample_splice:
  "splice ''Hi<hr>old<hr>Bye'' ''<p># Call## A## B</p>'' = ''Hi<hr><p># Call## A## B</p><hr>Bye''"
  by (simp add: js_defs)

lemma sentinel_samples:
  "prefix AGENT_ID ''AGENT: hello''" "\<not> prefix AGENT_ID ''hello''"
  by (simp_all add: AGENT_ID_def)

text \<open>
  C2, as stated, fails for the digest-only listener: a message whose text starts with the
  sentinel starts the digest and the mail is sent.
\<close>

theorem digest_only_runs_on_sentinel:
  "prefix AGENT_ID (message (say ''AGENT: hello'')) \<and>
   on_chat_digest sample_env sample_wksp ''general'' ''general'' (say ''AGENT: hello'') fresh =
     (Exited 0, [SendMail ''Hi<hr><p># Call## A## B</p><hr>Bye''], fresh)"
  by (simp add: on_chat_digest_def digest_mail_def find_agenda_def scan_files_def act_defs
      call_defs js_defs sample_env_def sample_wksp_def say_def AGENT_ID_def)

text \<open>
  C2, amended. In the AI-reply listener and in the reporting digest listener, a message on
  the subscribed channel whose text starts with the sentinel \<open>AGENT: \<close> is ignored (no
  generation call, no digest, no publication), and every other message is forwarded exactly
  once: one generation call with the text of the message, one digest mail when the agenda
  and the template are read. The digest-only listener makes no test on the text: every
  message on the subscribed channel starts one digest run.
\<close>

theorem sentinel_guard_by_variant:
  "(prefix AGENT_ID (message msg) \<longrightarrow>
      on_chat_ai e c c msg s = (Returned (), [], s) \<and>
      on_chat_report e w c c msg s = (Returned (), [], s)) \<and>
   (\<not> prefix AGENT_ID (message msg) \<longrightarrow>
      filter is_Generate (events_of (on_chat_ai e c c msg s)) = [Generate (message msg)] \<and>
      (\<forall>md t. find_agenda w = Some md \<and> read_template e = Inr t \<longrightarrow>
         filter is_SendMail (events_of (on_chat_report e w c c msg s)) =
           [SendMail (splice t (markdown e (cutText md)))])) \<and>
   (\<forall>md t. find_agenda w = Some md \<and> read_template e = Inr t \<longrightarrow>
      events_of (on_chat_digest e w c c msg s) =
        [SendMail (splice t (markdown e (cutText md)))])"
proof -
  have ai: "filter is_Generate (events_of (on_chat_ai e c c msg s)) = [Generate (message msg)]"
    if "\<not> prefix AGENT_ID (message msg)"
    using that
    by (cases "ai_generate e (message msg)")
       (simp_all add: on_chat_ai_def starts_with_sentinel generate_call_def sendMessage_def
        act_defs events_of_def)
  have report: "filter is_SendMail (events_of (on_chat_report e w c c msg s)) =
           [SendMail (splice t (markdown e (cutText md)))]"
    if "\<not> prefix AGENT_ID (message msg)" "find_agenda w = Some md" "read_template e = Inr t"
    for md t
    using that
    by (simp add: on_chat_report_def starts_with_sentinel digest_mail_def
        read_template_call_def send_mail_call_def sendMessage_def act_defs events_of_def)
  have digest: "events_of (on_chat_digest e w c c msg s) =
        [SendMail (splice t (markdown e (cutText md)))]"
    if "find_agenda w = Some md" "read_template e = Inr t" for md t
    using that
    by (cases "send_mail e (splice t (markdown e (cutText md)))")
       (simp_all add: on_chat_digest_def digest_mail_def read_template_call_def
        send_mail_call_def act_defs events_of_def)
  show ?thesis
    using ai report digest
    by (simp add: on_chat_ai_def on_chat_report_def starts_with_sentinel ret_def)
qed

theorem sentinel_guard_by_variant_witness:
  "prefix AGENT_ID (message (say ''AGENT: hello'')) \<and>
   on_chat_ai sample_env ''general'' ''general'' (say ''AGENT: hello'') fresh =
     (Returned (), [], fresh) \<and>
   on_chat_report sample_env sample_wksp ''general'' ''general'' (say ''AGENT: hello'') fresh =
     (Returned (), [], fresh) \<and>
   \<not> prefix AGENT_ID (message (say ''hello'')) \<and>
   filter is_Generate (events_of (on_chat_ai sample_env ''general'' ''general'' (say ''hello'')
     fresh)) = [Generate ''hello''] \<and>
   filter is_SendMail (events_of (on_chat_report sample_env sample_wksp ''general'' ''general''
     (say ''hello'') fresh)) = [SendMail ''Hi<hr><p># Call## A## B</p><hr>Bye''] \<and>
   events_of (on_chat_digest sample_env sample_wksp ''general'' ''general'' (say ''hello'')
     fresh) = [SendMail ''Hi<hr><p># Call## A## B</p><hr>Bye'']"
proof -
  have msg: "message (say m) = m" for m by (simp add: say_def)
  have tpl: "read_template sample_env = Inr ''Hi<hr>old<hr>Bye''"
    by (simp add: sample_env_def)
  have md: "markdown sample_env ''# Call## A## B'' = ''<p># Call## A## B</p>''"
    by (simp add: sample_env_def)
  note a = sentinel_guard_by_variant [of "say ''AGENT: hello''" sample_env "''general''" fresh
      sample_wksp, unfolded msg]
  note b = sentinel_guard_by_variant [of "say ''hello''" sample_env "''general''" fresh
      sample_wksp, unfolded msg]
  from a sentinel_samples(1) have 1:
    "on_chat_ai sample_env ''general'' ''general'' (say ''AGENT: hello'') fresh =
       (Returned (), [], fresh)"
    "on_chat_report sample_env sample_wksp ''general'' ''general'' (say ''AGENT: hello'') fresh =
       (Returned (), [], fresh)"
    by blast+
  from b sentinel_samples(2) find_agenda_sample tpl have 2:
    "filter is_Generate (events_of (on_chat_ai sample_env ''general'' ''general'' (say ''hello'')
       fresh)) = [Generate ''hello'']"
    "filter is_SendMail (events_of (on_chat_report sample_env sample_wksp ''general'' ''general''
       (say ''hello'') fresh)) =
       [SendMail (splice ''Hi<hr>old<hr>Bye'' (markdown sample_env (cutText ''# Call## A## B## C'')))]"
    "events_of (on_chat_digest sample_env sample_wksp ''general'' ''general'' (say ''hello'')
       fresh) =
       [SendMail (splice ''Hi<hr>old<hr>Bye'' (markdown sample_env (cutText ''# Call## A## B## C'')))]"
    by blast+
  show ?thesis
    using 1 2 sentinel_samples by (simp add: msg sample_cut md sample_splice)
qed

subsection \<open>No agenda\<close>

lemma scan_files_acc:
  "foldl (\<lambda>fc f. if fst f = k then map_of fs (fst f) else fc) acc gs =
     (if k \<in> fst ` set gs then map_of fs k else acc)"
  by (induction gs arbitrary: acc) auto

lemma scan_files_eq:
  "scan_files instance fc =
     (if ''/agenda.md'' \<in> fst ` set (files instance)
      then map_of (files instance) ''/agenda.md'' else fc)"
  unfolding scan_files_def by (rule scan_files_acc)

lemma scan_files_None:
  "(scan_files instance fc = None) =
     (fc = None \<and> ''/agenda.md'' \<notin> fst ` set (files instance))"
  by (auto simp add: scan_files_eq map_of_eq_None_iff)

lemma find_agenda_acc:
  "(foldl (\<lambda>fc instance. scan_files instance fc) acc ps = None) =
     (acc = None \<and> (\<forall>p \<in> set ps. ''/agenda.md'' \<notin> fst ` set (files p)))"
  by (induction ps arbitrary: acc) (auto simp add: scan_files_None)

lemma find_agenda_None:
  "(find_agenda wksp = None) =
     (\<forall>p \<in> set (projects wksp). ''/agenda.md'' \<notin> fst ` set (files p))"
  by (simp add: find_agenda_def find_agenda_acc)

lemma digest_without_agenda:
  assumes "\<forall>p \<in> set (projects wksp). ''/agenda.md'' \<notin> fst ` set (files p)"
  shows "on_chat_digest e wksp c c msg s =
           (Threw (TypeError ''Cannot read properties of undefined (reading getText)''), [], s)"
proof -
  from assms have "find_agenda wksp = None" by (simp add: find_agenda_None)
  then show ?thesis by (simp add: on_chat_digest_def digest_mail_def act_defs)
qed

text \<open>
  C7. With no file at \<open>/agenda.md\<close> in any project the digest does not complete as a
  no-op: \<open>fileContents\<close> is still undefined when its text is read, and the listener throws a
  \<open>TypeError\<close>. No mail is sent.
\<close>

theorem digest_without_agenda_throws:
  "on_chat_digest sample_env empty_wksp ''general'' ''general'' (say ''hello'') fresh =
     (Threw (TypeError ''Cannot read properties of undefined (reading getText)''), [], fresh) \<and>
   on_chat_report sample_env empty_wksp ''general'' ''general'' (say ''hello'') fresh =
     (Threw (TypeError ''Cannot read properties of undefined (reading getText)''), [], fresh)"
  by (simp add: on_chat_digest_def on_chat_report_def digest_mail_def find_agenda_def
      empty_wksp_def act_defs js_defs say_def AGENT_ID_def)

subsection \<open>Template without delimiters\<close>

text \<open>
  C8. A template that lacks its \<open><hr>\<close> delimiters (both of them, or the second one)
  raises no error: the splice is computed from the not-found results of the searches and
  the mail is sent.
\<close>

theorem digest_sends_without_delimiters:
  "on_chat_digest (sample_env\<lparr>read_template := Inr ''Hello''\<rparr>) sample_wksp
      ''general'' ''general'' (say ''hello'') fresh =
     (Exited 0, [SendMail ''Hel<p># Call## A## B</p>Hello''], fresh) \<and>
   on_chat_digest (sample_env\<lparr>read_template := Inr ''Hi<hr>only one''\<rparr>) sample_wksp
      ''general'' ''general'' (say ''hello'') fresh =
     (Exited 0, [SendMail ''Hi<hr><p># Call## A## B</p>Hi<hr>only one''], fresh)"
  by (simp add: on_chat_digest_def digest_mail_def find_agenda_sample act_defs
      call_defs js_defs sample_env_def)

section \<open>The control endpoint\<close>

lemma post_agent_slot:
  "activeAgent (state_of (post_agent e req s)) = None \<or>
   activeAgent (state_of (post_agent e req s)) = activeAgent s"
  unfolding post_agent_guarded by (rule guarded_slot_any) (rule frame_post_body)

lemma post_agent_report_slot:
  "activeAgent (state_of (post_agent_report e req s)) = None \<or>
   activeAgent (state_of (post_agent_report e req s)) = activeAgent s"
  unfolding post_agent_report_guarded by (rule guarded_slot_any) (rule frame_post_report_body)

lemma post_agent_digest_slot:
  "activeAgent (state_of (post_agent_digest e req s)) = None \<or>
   activeAgent (state_of (post_agent_digest e req s)) = activeAgent s"
  unfolding post_agent_digest_guarded by (rule guarded_slot_any) (rule frame_post_digest_body)

text \<open>
  C9. No operation assigns a handle to the slot \<open>globalThis._activeAgent\<close>: starting from
  an empty slot, after any sequence of \<open>POST /agent\<close> requests, to any of the three
  servers, the slot is still empty, and the branch that stops the previous agent was
  never taken (its log line never appears). From any state, a request leaves the slot
  either as it was or empty: the handler reads the slot and resets it, nothing more.
\<close>

theorem slot_never_assigned:
  assumes "h = post_agent e \<or> h = post_agent_report e \<or> h = post_agent_digest e"
    and "activeAgent s = None"
  shows "activeAgent (snd (serve h reqs s)) = None \<and>
         list_all (\<lambda>ev. \<not> is_LogStopping ev) (fst (serve h reqs s)) \<and>
         (activeAgent (state_of (h req s')) = None \<or>
          activeAgent (state_of (h req s')) = activeAgent s')"
proof -
  have "activeAgent (state_of (h req s)) = None \<and>
        list_all (\<lambda>ev. \<not> is_LogStopping ev) (events_of (h req s))"
    if "activeAgent s = None" for req s
    using assms(1) that
    by (auto simp add: post_agent_guarded post_agent_report_guarded post_agent_digest_guarded
        intro!: guarded_slot [THEN conjunct1] guarded_slot [THEN conjunct2] frame_post_body
        frame_post_report_body frame_post_digest_body)
  from serve_slot [of h, OF this assms(2)]
  have "activeAgent (snd (serve h reqs s)) = None \<and>
        list_all (\<lambda>ev. \<not> is_LogStopping ev) (fst (serve h reqs s))" .
  moreover have "activeAgent (state_of (h req s')) = None \<or>
                 activeAgent (state_of (h req s')) = activeAgent s'"
  proof -
    from assms(1) consider "h = post_agent e" | "h = post_agent_report e"
      | "h = post_agent_digest e" by blast
    then show ?thesis
    proof cases
      case 1
      then show ?thesis by (simp add: post_agent_slot)
    next
      case 2
      then show ?thesis by (simp add: post_agent_report_slot)
    next
      case 3
      then show ?thesis by (simp add: post_agent_digest_slot)
    qed
  qed
  ultimately show ?thesis by simp
qed

theorem slot_never_assigned_witness:
  "activeAgent fresh = None \<and>
   activeAgent (snd (serve (post_agent sample_env) [ask ''w1'', ask ''w2''] fresh)) = None \<and>
   list_all (\<lambda>ev. \<not> is_LogStopping ev)
     (fst (serve (post_agent sample_env) [ask ''w1'', ask ''w2''] fresh)) \<and>
   activeAgent (state_of (post_agent sample_env (ask ''w1'')
     (fresh\<lparr>activeAgent := Some \<lparr>a_wkspName = ''w0''\<rparr>\<rparr>))) = None"
proof -
  have "activeAgent (state_of (post_agent sample_env (ask ''w1'')
          (fresh\<lparr>activeAgent := Some \<lparr>a_wkspName = ''w0''\<rparr>\<rparr>))) = None"
    by (simp add: post_agent_def startAgent_def setupWorkspace_def act_defs call_defs
        hex_zero_psk sample_env_def sample_wksp_def fresh_def ask_def state_of_def)
  with slot_never_assigned [of "post_agent sample_env" sample_env fresh
      "[ask ''w1'', ask ''w2'']"]
  show ?thesis by (simp add: fresh_def)
qed

lemma backstage_silent: "list_all backstage ev \<Longrightarrow> filter is_Respond ev = []"
  by (induction ev) (simp_all add: backstage_def)

lemma stop_previous_run:
  "\<exists>ev. stop_previous s = (Returned (), ev, s\<lparr>activeAgent := None\<rparr>) \<and>
        filter is_Respond ev = []"
  by (cases "activeAgent s") (simp_all add: stop_previous_def)

text \<open>
  The server of \<open>headless.ts\<close> never answers 200: \<open>startAgent\<close> ends in a promise that
  never settles, so the \<open>res.json\<close> behind the \<open>await\<close> is not reached.
\<close>

lemma startAgent_never_returns: "fst (startAgent e name key c s) \<noteq> Returned x"
  by (simp add: startAgent_def andThen_def pending_def split: prod.splits outcome.splits)

lemma post_agent_never_ok:
  "Respond 200 b \<notin> set (events_of (post_agent e req s))"
proof (cases "length (hex_decode (psk req)) = 32")
  case False
  then show ?thesis
    by (simp add: post_agent_guarded guarded_rejected rejected_def events_of_def)
next
  case True
  let ?m = "startAgent e (wkspName req) (hex_decode (psk req)) (channel req)"
  let ?s0 = "s\<lparr>activeAgent := None\<rparr>"
  obtain ev0 where stop: "stop_previous s = (Returned (), ev0, ?s0)"
    and ev0: "filter is_Respond ev0 = []"
    using stop_previous_run [of s] by blast
  obtain r ev s' where run: "?m ?s0 = (r, ev, s')" by (cases "?m ?s0") auto
  from frameD(2) [OF frame_startAgent run] have ev: "filter is_Respond ev = []"
    by (rule backstage_silent)
  from startAgent_never_returns [of e "wkspName req" "hex_decode (psk req)" "channel req" ?s0]
    run have nr: "r \<noteq> Returned ()" by simp
  have quiet: "Respond 200 b \<notin> set ev0" "Respond 200 b \<notin> set ev"
    using ev0 ev by (auto simp add: filter_empty_conv)
  from True stop run nr quiet show ?thesis
    by (cases r)
       (simp_all add: post_agent_def validate_psk_def respond_error_def act_defs events_of_def)
qed

text \<open>
  What the three handlers answer to a request whose PSK decodes to 32 bytes. The digest
  servers have answered 200 before the start they launched has done anything, so no
  failure of that start can change the answer; only the server of \<open>headless.ts\<close>, which
  awaits the start, answers 500 when it throws.
\<close>

lemma post_agent_responses:
  assumes valid: "length (hex_decode (psk req)) = 32"
  shows "responses (post_agent_report e req s) = [Respond 200 (OkBody (joined_message req))] \<and>
    (write_env e = None \<longrightarrow>
       responses (post_agent_digest e req s) = [Respond 200 (OkBody (joined_message req))]) \<and>
    (\<forall>err. write_env e = Some err \<longrightarrow>
       responses (post_agent_digest e req s) = [Respond 500 (ErrBody (error_message err))]) \<and>
    (\<forall>err. fst (startAgent e (wkspName req) (hex_decode (psk req)) (channel req)
                 (s\<lparr>activeAgent := None\<rparr>)) = Threw err \<longrightarrow>
       responses (post_agent e req s) = [Respond 500 (ErrBody (error_message err))])"
proof -
  let ?key = "hex_decode (psk req)"
  let ?s0 = "s\<lparr>activeAgent := None\<rparr>"
  obtain ev0 where stop: "stop_previous s = (Returned (), ev0, ?s0)"
    and ev0: "filter is_Respond ev0 = []"
    using stop_previous_run [of s] by blast
  have report: "responses (post_agent_report e req s) =
                  [Respond 200 (OkBody (joined_message req))]"
  proof -
    let ?m = "startAgent_report e (wkspName req) ?key (channel req)"
    obtain r ev s' where run: "?m ?s0 = (r, ev, s')" by (cases "?m ?s0") auto
    from frameD(2) [OF frame_startAgent_report run] have "filter is_Respond ev = []"
      by (rule backstage_silent)
    with valid stop ev0 run show ?thesis
      by (cases r)
         (simp_all add: post_agent_report_def validate_psk_def respond_ok_def act_defs
          responses_def events_of_def)
  qed
  have digest_ok: "responses (post_agent_digest e req s) =
                  [Respond 200 (OkBody (joined_message req))]" if "write_env e = None"
  proof -
    let ?m = "startAgent_digest e (wkspName req) ?key (channel req)"
    obtain r ev s' where run: "?m ?s0 = (r, ev, s')" by (cases "?m ?s0") auto
    from frameD(2) [OF frame_startAgent_digest run] have "filter is_Respond ev = []"
      by (rule backstage_silent)
    with valid stop ev0 run that show ?thesis
      by (cases r)
         (simp_all add: post_agent_digest_def validate_psk_def respond_ok_def act_defs
          write_env_call_def responses_def events_of_def)
  qed
  have digest_err: "responses (post_agent_digest e req s) =
                  [Respond 500 (ErrBody (error_message err))]" if "write_env e = Some err" for err
    using valid stop ev0 that
    by (simp add: post_agent_digest_def validate_psk_def respond_error_def act_defs
        write_env_call_def responses_def events_of_def)
  have ai: "responses (post_agent e req s) = [Respond 500 (ErrBody (error_message err))]"
    if "fst (startAgent e (wkspName req) ?key (channel req) ?s0) = Threw err" for err
  proof -
    let ?m = "startAgent e (wkspName req) ?key (channel req)"
    obtain r ev s' where run: "?m ?s0 = (r, ev, s')" by (cases "?m ?s0") auto
    from frameD(2) [OF frame_startAgent run] have "filter is_Respond ev = []"
      by (rule backstage_silent)
    with valid stop ev0 run that show ?thesis
      by (simp add: post_agent_def validate_psk_def respond_error_def act_defs
          responses_def events_of_def)
  qed
  from report digest_ok digest_err ai show ?thesis by blast
qed

lemma post_agent_responses_sample:
  "length (hex_decode (psk (ask ''w1''))) = 32 \<and>
   responses (post_agent_report sample_env (ask ''w1'') fresh) =
     [Respond 200 (OkBody ''Agent joined workspace w1 on #general'')] \<and>
   responses (post_agent_digest sample_env (ask ''w1'') fresh) =
     [Respond 200 (OkBody ''Agent joined workspace w1 on #general'')] \<and>
   responses (post_agent_digest (sample_env\<lparr>write_env := Some (Error ''EACCES'')\<rparr>)
       (ask ''w1'') fresh) = [Respond 500 (ErrBody ''EACCES'')] \<and>
   responses (post_agent (sample_env\<lparr>Workspace_setup := \<lambda>name. Inl (Error ''timeout'')\<rparr>)
       (ask ''w1'') fresh) = [Respond 500 (ErrBody ''timeout'')]"
  using post_agent_responses [of "ask ''w1''" sample_env fresh]
    post_agent_responses [of "ask ''w1''" "sample_env\<lparr>write_env := Some (Error ''EACCES'')\<rparr>"
      fresh]
    post_agent_responses [of "ask ''w1''"
      "sample_env\<lparr>Workspace_setup := \<lambda>name. Inl (Error ''timeout'')\<rparr>" fresh]
  by (simp add: ask_def hex_zero_psk sample_env_def fresh_def joined_message_def
      startAgent_def setupWorkspace_def act_defs call_defs)

text \<open>
  C6. \<open>POST /agent\<close> does not answer 500 with \<open>{ok: false, error}\<close> when the workspace setup
  fails on the digest servers: the join is refused, yet the answer, already sent, is 200 with
  \<open>{ok: true, message}\<close>; the rejection of the dropped promise never reaches the \<open>catch\<close> of
  the handler and ends the process. On the server of \<open>headless.ts\<close> a start that succeeds
  is never answered. On every server a PSK that fails the check is thrown out of the
  handler, before the \<open>try\<close>, and gets no JSON answer.
\<close>

theorem post_agent_misreports:
  "post_agent_digest
      (sample_env\<lparr>Workspace_join := \<lambda>name label trusted relaxed key st. Inl (Error ''refused'')\<rparr>)
      (ask ''w1'') fresh =
     (Exited 1,
      [WriteEnv ''w1'' (replicate 32 0) ''general'',
       Respond 200 (OkBody ''Agent joined workspace w1 on #general''),
       Join ''w1'' ''w1'' False True (replicate 32 0)],
      fresh\<lparr>detached := [Threw (Error ''refused'')]\<rparr>) \<and>
   post_agent_report
      (sample_env\<lparr>Workspace_join := \<lambda>name label trusted relaxed key st. Inl (Error ''refused'')\<rparr>)
      (ask ''w1'') fresh =
     (Exited 1,
      [Respond 200 (OkBody ''Agent joined workspace w1 on #general''),
       Join ''w1'' ''w1'' False True (replicate 32 0)],
      fresh\<lparr>detached := [Threw (Error ''refused'')]\<rparr>) \<and>
   fst (post_agent sample_env (ask ''w1'') fresh) = Pending \<and>
   events_of (post_agent sample_env (ask ''w1'') fresh) =
     [Join ''w1'' ''w1'' False False (replicate 32 0), WorkspaceSetup ''w1'',
      Subscribe \<lparr>l_mode = AiReply, l_wkspName = ''w1'', l_wksp = sample_wksp,
                 l_channel = ''general''\<rparr>] \<and>
   post_agent sample_env \<lparr>wkspName = ''w1'', psk = short_psk, channel = ''general''\<rparr> fresh =
     (Threw (Error ''PSK must be exactly 32 bytes (64 hex characters)''), [], fresh)"
  by (simp add: post_agent_digest_def post_agent_report_def post_agent_def
      startAgent_digest_def startAgent_report_def startAgent_def setupWorkspace_digest_def
      setupWorkspace_def act_defs call_defs hex_zero_psk hex_short_psk sample_env_def
      sample_wksp_def fresh_def ask_def events_of_def joined_message_def)

text \<open>
  C1. Two requests handled in sequence leave two listeners registered: nothing cancels
  or detaches the first agent before the second is started.
\<close>

theorem two_agents_subscribed:
  "listeners (snd (serve (post_agent sample_env) [ask ''w1'', ask ''w2''] fresh)) =
     [\<lparr>l_mode = AiReply, l_wkspName = ''w1'', l_wksp = sample_wksp, l_channel = ''general''\<rparr>,
      \<lparr>l_mode = AiReply, l_wkspName = ''w2'', l_wksp = sample_wksp, l_channel = ''general''\<rparr>] \<and>
   fst (serve (post_agent sample_env) [ask ''w1'', ask ''w2''] fresh) =
     [Join ''w1'' ''w1'' False False (replicate 32 0), WorkspaceSetup ''w1'',
      Subscribe \<lparr>l_mode = AiReply, l_wkspName = ''w1'', l_wksp = sample_wksp,
                 l_channel = ''general''\<rparr>,
      Join ''w2'' ''w2'' False False (replicate 32 0), WorkspaceSetup ''w2'',
      Subscribe \<lparr>l_mode = AiReply, l_wkspName = ''w2'', l_wksp = sample_wksp,
                 l_channel = ''general''\<rparr>]"
  by (simp add: post_agent_def startAgent_def setupWorkspace_def act_defs call_defs
      hex_zero_psk sample_env_def sample_wksp_def fresh_def ask_def)

end
